theory Spec2Isabelle
  imports Complex_Main "HOL-Library.Word"
begin

unbundle bit_operations_syntax

section \<open>Handles, layouts and the driver\<close>

text \<open>
  The Vulkan handles (\<^verbatim>\<open>VkDescriptorSet\<close>, \<^verbatim>\<open>VkPipelineLayout\<close>,
  \<^verbatim>\<open>VkDescriptorSetLayout\<close>) are opaque 64-bit values that the code only copies and
  compares; \<^verbatim>\<open>VK_NULL_HANDLE\<close> is 0.
\<close>

type_synonym VkDescriptorSet = "64 word"
type_synonym VkPipelineLayout = "64 word"
type_synonym VkDescriptorSetLayout = "64 word"

definition VK_NULL_HANDLE :: "64 word" where
  "VK_NULL_HANDLE = 0"

text \<open>
  Modelled from the spec: \<^verbatim>\<open>VulkanDescriptorSetLayout::Count\<close> is declared in a header
  that is not among the sources. The spec gives the Resource Count as the four tallies
  (buffer, dynamic buffer, sampler, input attachment), compatible iff component-wise equal;
  the field names are those the source reads (\<^verbatim>\<open>actual.ubo\<close>, \<^verbatim>\<open>mCount.dynamicUbo\<close>, ...).
\<close>

record DescriptorCount =
  ubo :: "32 word"
  dynamicUbo :: "32 word"
  sampler :: "32 word"
  inputAttachment :: "32 word"

text \<open>
  \<^verbatim>\<open>VulkanDescriptorSetLayout\<close>, as far as the manager reads it: \<^verbatim>\<open>layout->bitmask\<close>,
  \<^verbatim>\<open>layout->count\<close> and \<^verbatim>\<open>layout->vklayout\<close>. The type of the bit-mask is declared in
  the missing header as well; the pools only hash and compare it, so it stays a type
  parameter \<open>'m\<close>.
\<close>

record 'm VulkanDescriptorSetLayout =
  bitmask :: 'm
  count :: DescriptorCount
  vklayout :: VkDescriptorSetLayout

text \<open>
  The driver is outside the repository. What \<^verbatim>\<open>vkAllocateDescriptorSets\<close> answers is an
  input of the model: the list of the answers the driver will give, in the order of the
  calls. A driver with no answer left reports an error.
\<close>

datatype VkResult = VK_SUCCESS | VK_ERROR_OUT_OF_POOL_MEMORY

type_synonym VkDevice = "(VkResult \<times> VkDescriptorSet) list"

fun vkAllocateDescriptorSets :: "VkDevice \<Rightarrow> (VkResult \<times> VkDescriptorSet) \<times> VkDevice" where
  "vkAllocateDescriptorSets [] = ((VK_ERROR_OUT_OF_POOL_MEMORY, VK_NULL_HANDLE), [])"
| "vkAllocateDescriptorSets (answer # rest) = (answer, rest)"

text \<open>
  The ways a call can end without returning: \<^verbatim>\<open>FILAMENT_CHECK_POSTCONDITION\<close> panics,
  \<^verbatim>\<open>assert_invariant\<close> fails (the assertions are taken as compiled in), and the three places where the C++ has undefined behaviour
  that the model makes explicit: an index beyond a \<^verbatim>\<open>std::array\<close>, a null \<^verbatim>\<open>mSet\<close> that
  is dereferenced, a \<^verbatim>\<open>float\<close> too large for the \<^verbatim>\<open>uint16_t\<close> it is converted to, and
  an iterator whose element has gone.
\<close>

datatype error =
    PostconditionFailed
  | AssertInvariantFailed
  | IndexOutOfBounds
  | NullDereference
  | FloatOutOfRange
  | InvalidIterator

section \<open>DescriptorPool: the fixed-capacity Sub-Pool\<close>

text \<open>
  The fields of \<^verbatim>\<open>DescriptorPool\<close>. \<^verbatim>\<open>mUnused\<close> is the
  \<^verbatim>\<open>unordered_map<Bitmask, vector<VkDescriptorSet>>\<close>; the vector's back is the end of
  the list. The native pool object (\<^verbatim>\<open>mDevice\<close>, \<^verbatim>\<open>mPool\<close>) lives in the driver.
\<close>

record 'm DescriptorPool =
  mCount :: DescriptorCount
  mCapacity :: "16 word"
  mSize :: "16 word"
  mUnusedCount :: "16 word"
  mUnused :: "'m \<rightharpoonup> VkDescriptorSet list"

definition DescriptorPool_ctor :: "DescriptorCount \<Rightarrow> 16 word \<Rightarrow> 'm DescriptorPool" where
  "DescriptorPool_ctor cnt capacity =
     \<lparr>mCount = cnt, mCapacity = capacity, mSize = 0, mUnusedCount = 0, mUnused = Map.empty\<rparr>"

definition capacity :: "'m DescriptorPool \<Rightarrow> 16 word" where
  "capacity pool = mCapacity pool"

definition canAllocate :: "'m DescriptorPool \<Rightarrow> DescriptorCount \<Rightarrow> bool" where
  "canAllocate pool cnt = (cnt = mCount pool)"

text \<open>
  \<^verbatim>\<open>DescriptorPool::obtainSet\<close>. The result is the handle returned, the pool and the
  driver after the call. \<^verbatim>\<open>mSize + 1 > mCapacity\<close> is computed in \<^verbatim>\<open>int\<close>, so it does
  not wrap.
\<close>

definition DescriptorPool_obtainSet ::
  "'m DescriptorPool \<Rightarrow> 'm VulkanDescriptorSetLayout \<Rightarrow> VkDevice
     \<Rightarrow> error + (VkDescriptorSet \<times> 'm DescriptorPool \<times> VkDevice)" where
  "DescriptorPool_obtainSet pool layout dev =
     (case mUnused pool (bitmask layout) of
        Some sets \<Rightarrow>
          if sets = [] then Inr (VK_NULL_HANDLE, pool, dev)
          else Inr (last sets,
                    pool\<lparr>mUnused := (mUnused pool)(bitmask layout \<mapsto> butlast sets),
                         mUnusedCount := mUnusedCount pool - 1\<rparr>,
                    dev)
      | None \<Rightarrow>
          if unat (mSize pool) + 1 > unat (mCapacity pool) then Inr (VK_NULL_HANDLE, pool, dev)
          else (case vkAllocateDescriptorSets dev of
                  ((result, vkSet), dev') \<Rightarrow>
                    if result \<noteq> VK_SUCCESS then Inl PostconditionFailed
                    else Inr (vkSet, pool\<lparr>mSize := mSize pool + 1\<rparr>, dev')))"

text \<open>\<^verbatim>\<open>DescriptorPool::recycle\<close>: both branches push the handle on the vector of the mask.\<close>

definition DescriptorPool_recycle ::
  "'m DescriptorPool \<Rightarrow> 'm \<Rightarrow> VkDescriptorSet \<Rightarrow> 'm DescriptorPool" where
  "DescriptorPool_recycle pool layoutMask vkSet =
     (case mUnused pool layoutMask of
        Some sets \<Rightarrow>
          pool\<lparr>mUnused := (mUnused pool)(layoutMask \<mapsto> sets @ [vkSet]),
               mUnusedCount := mUnusedCount pool + 1\<rparr>
      | None \<Rightarrow>
          pool\<lparr>mUnused := (mUnused pool)(layoutMask \<mapsto> [] @ [vkSet]),
               mUnusedCount := mUnusedCount pool + 1\<rparr>)"

section \<open>DescriptorInfinitePool: the Growing Pool Manager\<close>

definition EXPECTED_SET_COUNT :: "16 word" where
  "EXPECTED_SET_COUNT = 10"

text \<open>
  \<^verbatim>\<open>std::ceil(capacity * SET_COUNT_GROWTH_FACTOR)\<close> with the factor \<^verbatim>\<open>1.5f\<close>. A
  \<^verbatim>\<open>uint16_t\<close> times 1.5 is a multiple of one half below \<open>2 ^ 17\<close>, which a \<^verbatim>\<open>float\<close>
  holds exactly, so the product and its ceiling are the exact ones: \<open>(3 * c + 1) div 2\<close>.
  Converting a \<^verbatim>\<open>float\<close> beyond 65535 to \<^verbatim>\<open>uint16_t\<close> is undefined in C++; the model
  ends the call there.
\<close>

definition grownCapacity :: "16 word \<Rightarrow> error + 16 word" where
  "grownCapacity c =
     (let r = (3 * unat c + 1) div 2
      in if r < 65536 then Inr (of_nat r) else Inl FloatOutOfRange)"

text \<open>
  The loop of \<^verbatim>\<open>DescriptorInfinitePool::obtainSet\<close> over \<^verbatim>\<open>mPools\<close>. \<^verbatim>\<open>sameTypePool\<close>
  is only ever read through \<^verbatim>\<open>capacity()\<close>, a constant of its pool, so the model keeps
  that capacity instead of the pointer. The loop ends either by returning a handle
  (\<open>Found\<close>) or by running off the end of the vector (\<open>Exhausted\<close>).
\<close>

datatype 'm scan =
    Found VkDescriptorSet "'m DescriptorPool list" VkDevice
  | Exhausted "16 word option" "'m DescriptorPool list" VkDevice

fun keepPool :: "'m DescriptorPool \<Rightarrow> error + 'm scan \<Rightarrow> error + 'm scan" where
  "keepPool pool (Inl e) = Inl e"
| "keepPool pool (Inr (Found vkSet pools dev)) = Inr (Found vkSet (pool # pools) dev)"
| "keepPool pool (Inr (Exhausted same pools dev)) = Inr (Exhausted same (pool # pools) dev)"

fun scanPools ::
  "'m VulkanDescriptorSetLayout \<Rightarrow> 'm DescriptorPool list \<Rightarrow> 16 word option \<Rightarrow> VkDevice
     \<Rightarrow> error + 'm scan" where
  "scanPools layout [] sameTypePool dev = Inr (Exhausted sameTypePool [] dev)"
| "scanPools layout (pool # rest) sameTypePool dev =
     (if \<not> canAllocate pool (count layout)
      then keepPool pool (scanPools layout rest sameTypePool dev)
      else (case DescriptorPool_obtainSet pool layout dev of
              Inl e \<Rightarrow> Inl e
            | Inr (vkSet, pool', dev') \<Rightarrow>
                if vkSet \<noteq> VK_NULL_HANDLE then Inr (Found vkSet (pool' # rest) dev')
                else keepPool pool'
                       (scanPools layout rest
                          (case sameTypePool of
                             None \<Rightarrow> Some (capacity pool')
                           | Some c \<Rightarrow> if c < capacity pool' then Some (capacity pool') else Some c)
                          dev')))"

text \<open>
  \<^verbatim>\<open>DescriptorInfinitePool::obtainSet\<close>. \<^verbatim>\<open>DescriptorCount::fromLayoutBitmask\<close> is
  declared in the missing header; it is the parameter \<open>fromLayoutBitmask\<close>.
\<close>

definition DescriptorInfinitePool_obtainSet ::
  "('m \<Rightarrow> DescriptorCount) \<Rightarrow> 'm DescriptorPool list \<Rightarrow> 'm VulkanDescriptorSetLayout \<Rightarrow> VkDevice
     \<Rightarrow> error + (VkDescriptorSet \<times> 'm DescriptorPool list \<times> VkDevice)" where
  "DescriptorInfinitePool_obtainSet fromLayoutBitmask mPools layout dev =
     (case scanPools layout mPools None dev of
        Inl e \<Rightarrow> Inl e
      | Inr (Found vkSet pools dev') \<Rightarrow> Inr (vkSet, pools, dev')
      | Inr (Exhausted sameTypePool pools dev') \<Rightarrow>
          (case (case sameTypePool of
                   None \<Rightarrow> Inr EXPECTED_SET_COUNT
                 | Some c \<Rightarrow> grownCapacity c) of
             Inl e \<Rightarrow> Inl e
           | Inr cap \<Rightarrow>
               (case DescriptorPool_obtainSet
                       (DescriptorPool_ctor (fromLayoutBitmask (bitmask layout)) cap) layout dev' of
                  Inl e \<Rightarrow> Inl e
                | Inr (ret, pool, dev'') \<Rightarrow>
                    if ret \<noteq> VK_NULL_HANDLE then Inr (ret, pools @ [pool], dev'')
                    else Inl AssertInvariantFailed)))"

text \<open>
  \<^verbatim>\<open>DescriptorInfinitePool::recycle\<close>: the first pool of the shape takes the handle and
  the loop breaks; a vector without such a pool is left as it is.
\<close>

fun DescriptorInfinitePool_recycle ::
  "'m DescriptorPool list \<Rightarrow> DescriptorCount \<Rightarrow> 'm \<Rightarrow> VkDescriptorSet \<Rightarrow> 'm DescriptorPool list" where
  "DescriptorInfinitePool_recycle [] cnt layoutMask vkSet = []"
| "DescriptorInfinitePool_recycle (pool # rest) cnt layoutMask vkSet =
     (if \<not> canAllocate pool cnt
      then pool # DescriptorInfinitePool_recycle rest cnt layoutMask vkSet
      else DescriptorPool_recycle pool layoutMask vkSet # rest)"

section \<open>DescriptorSetHistory: the Binding History of one set\<close>

record VkImageSubresourceRange =
  aspectMask :: "32 word"
  baseMipLevel :: "32 word"
  levelCount :: "32 word"
  baseArrayLayer :: "32 word"
  layerCount :: "32 word"

text \<open>
  A \<^verbatim>\<open>VulkanTexture*\<close>, as far as \<^verbatim>\<open>updateSampler\<close> and the history use it: the identity
  of the texture and what \<^verbatim>\<open>getPrimaryViewRange()\<close> returns.
\<close>

record VulkanTexture =
  texture :: "64 word"
  primaryViewRange :: VkImageSubresourceRange

text \<open>
  The arguments of one \<^verbatim>\<open>vkCmdBindDescriptorSets\<close> call, and the command buffer as the
  list of these calls in the order they were recorded.

  Modelled from the spec: \<^verbatim>\<open>VulkanCommandBuffer\<close> is not among the sources. After the
  spec, \<^verbatim>\<open>acquire\<close> extends the lifetime of a resource to the command stream; the buffer
  keeps the list of the wrappers it has acquired, each once.
\<close>

record BindDescriptorSets =
  cmdLayout :: VkPipelineLayout
  firstSet :: nat
  pDescriptorSet :: VkDescriptorSet
  dynamicOffsetCount :: "32 word"
  pDynamicOffsets :: "32 word list"

record VulkanCommandBuffer =
  recorded :: "BindDescriptorSets list"
  acquired :: "VkDescriptorSet option list"

text \<open>
  The fields of \<^verbatim>\<open>DescriptorSetHistory\<close> that its own methods and the manager read or
  write. \<^verbatim>\<open>mSet\<close> is the pointer to the wrapper, of which only \<^verbatim>\<open>vkSet\<close> is read:
  \<open>Some v\<close> is a wrapper whose \<^verbatim>\<open>vkSet\<close> is \<open>v\<close>, \<open>None\<close> is \<^verbatim>\<open>nullptr\<close>. The history's
  \<^verbatim>\<open>mCount\<close> is the field \<open>mSetCount\<close> here (the pool has an \<^verbatim>\<open>mCount\<close> too).
  \<^verbatim>\<open>mMask\<close>, \<^verbatim>\<open>mLayout\<close> and \<^verbatim>\<open>mMaxIndex\<close> are only read by accessors and for the
  descriptor type handed to the driver.

  Modelled from the spec: \<^verbatim>\<open>FixedSizeVulkanResourceManager\<close> and \<^verbatim>\<open>CappedArray\<close> are
  not among the sources. After the spec, \<^verbatim>\<open>mResources\<close> are the references the tracker
  holds itself (\<^verbatim>\<open>acquire\<close> adds one, \<^verbatim>\<open>clear\<close> drops all) and \<^verbatim>\<open>mTextures\<close> is the set
  of (texture, sub-resource-range) pairs; both are lists without duplicates here.
\<close>

record DescriptorSetHistory =
  mResources :: "VkDescriptorSet option list"
  mSet :: "VkDescriptorSet option"
  mTextures :: "(VulkanTexture \<times> VkImageSubresourceRange) list"
  mOffsets :: "32 word list"
  mSetCount :: DescriptorCount
  mWritten :: "64 word"
  mBound :: bool

text \<open>The default constructor, which \<^verbatim>\<open>mHistory[key]\<close> runs for a key it does not hold.\<close>

definition DescriptorSetHistory_default :: DescriptorSetHistory where
  "DescriptorSetHistory_default =
     \<lparr>mResources = [], mSet = None, mTextures = [], mOffsets = [],
      mSetCount = \<lparr>ubo = 0, dynamicUbo = 0, sampler = 0, inputAttachment = 0\<rparr>,
      mWritten = 0, mBound = False\<rparr>"

definition setOffsets :: "DescriptorSetHistory \<Rightarrow> 32 word list \<Rightarrow> DescriptorSetHistory" where
  "setOffsets h offsets = h\<lparr>mOffsets := offsets, mBound := False\<rparr>"

text \<open>
  \<^verbatim>\<open>write(binding)\<close>; \<open>write\<close> itself is a keyword of Isabelle. \<^verbatim>\<open>1LL << binding\<close> is
  defined in C++ for bindings below 64 only.
\<close>

definition write_binding :: "DescriptorSetHistory \<Rightarrow> 8 word \<Rightarrow> DescriptorSetHistory" where
  "write_binding h binding = h\<lparr>mWritten := mWritten h OR push_bit (unat binding) 1, mBound := False\<rparr>"

text \<open>The overload of \<^verbatim>\<open>write\<close> that also records the texture and its range.\<close>

definition write_texture ::
  "DescriptorSetHistory \<Rightarrow> 8 word \<Rightarrow> VkImageSubresourceRange \<Rightarrow> VulkanTexture \<Rightarrow> DescriptorSetHistory" where
  "write_texture h binding rng tex =
     (let h' = write_binding h binding in h'\<lparr>mTextures := List.insert (tex, rng) (mTextures h')\<rparr>)"

text \<open>
  \<^verbatim>\<open>DescriptorSetHistory::bind\<close>: the one place that records a command. It reads
  \<^verbatim>\<open>mSet->vkSet\<close>, so a history without a wrapper cannot be bound.
\<close>

definition DescriptorSetHistory_bind ::
  "DescriptorSetHistory \<Rightarrow> VulkanCommandBuffer \<Rightarrow> VkPipelineLayout \<Rightarrow> nat
     \<Rightarrow> error + (DescriptorSetHistory \<times> VulkanCommandBuffer)" where
  "DescriptorSetHistory_bind h commands pipelineLayout index =
     (case mSet h of
        None \<Rightarrow> Inl NullDereference
      | Some vk \<Rightarrow>
          Inr (h\<lparr>mResources := [], mBound := True\<rparr>,
               commands\<lparr>recorded := recorded commands @
                           [\<lparr>cmdLayout = pipelineLayout, firstSet = index, pDescriptorSet = vk,
                             dynamicOffsetCount = dynamicUbo (mSetCount h),
                             pDynamicOffsets = mOffsets h\<rparr>],
                        acquired := List.insert (mSet h) (acquired commands)\<rparr>))"

definition unbind :: "DescriptorSetHistory \<Rightarrow> DescriptorSetHistory" where
  "unbind h = h\<lparr>mResources := List.insert (mSet h) (mResources h), mBound := False\<rparr>"

definition bound :: "DescriptorSetHistory \<Rightarrow> bool" where
  "bound h = mBound h"

section \<open>VulkanDescriptorSetManager::Impl: the Set Manager\<close>

text \<open>
  \<^verbatim>\<open>DescriptorSetArray\<close> is \<^verbatim>\<open>std::array<VkDescriptorSet, UNIQUE_DESCRIPTOR_SET_COUNT>\<close>.
  The constant is declared in a header that is not among the sources; an array is the list
  of its elements and the constant is its length. \<^verbatim>\<open>setMask & (1LL << i)\<close> on the
  \<^verbatim>\<open>uint8_t\<close> mask is bit \<open>i\<close> of the mask.
\<close>

record BoundInfo =
  pipelineLayout :: VkPipelineLayout
  setMask :: "8 word"
  boundSets :: "VkDescriptorSet list"

definition BoundInfo_eq :: "BoundInfo \<Rightarrow> BoundInfo \<Rightarrow> bool" where
  "BoundInfo_eq this info =
     (if pipelineLayout this \<noteq> pipelineLayout info \<or> setMask this \<noteq> setMask info then False
      else list_all (\<lambda>i. \<not> (bit (setMask this) i \<and> boundSets this ! i \<noteq> boundSets info ! i))
             [0..<length (boundSets this)])"

record 'm Impl =
  mDescriptorPool :: "'m DescriptorPool list"
  mHistory :: "VkDescriptorSet \<rightharpoonup> DescriptorSetHistory"
  mStashedSets :: "VkDescriptorSet list"
  mLastBoundInfo :: BoundInfo

text \<open>The constructor, for an array of \<open>n\<close> slots.\<close>

definition Impl_ctor :: "nat \<Rightarrow> 'm Impl" where
  "Impl_ctor n =
     \<lparr>mDescriptorPool = [], mHistory = Map.empty, mStashedSets = replicate n VK_NULL_HANDLE,
      mLastBoundInfo = \<lparr>pipelineLayout = VK_NULL_HANDLE, setMask = 0,
                        boundSets = replicate n VK_NULL_HANDLE\<rparr>\<rparr>"

text \<open>\<^verbatim>\<open>mHistory[key]\<close>: the element of the key, default-constructed when there is none.\<close>

definition subscript ::
  "(VkDescriptorSet \<rightharpoonup> DescriptorSetHistory) \<Rightarrow> VkDescriptorSet \<Rightarrow> DescriptorSetHistory" where
  "subscript m key = (case m key of None \<Rightarrow> DescriptorSetHistory_default | Some h \<Rightarrow> h)"

text \<open>
  \<^verbatim>\<open>Impl::bind\<close>. The argument is \<^verbatim>\<open>set->vkSet\<close>. \<^verbatim>\<open>mStashedSets[setIndex]\<close> beyond the
  array is undefined in C++ and ends the call in the model.
\<close>

definition Impl_bind ::
  "'m Impl \<Rightarrow> 8 word \<Rightarrow> VkDescriptorSet \<Rightarrow> 32 word list \<Rightarrow> error + 'm Impl" where
  "Impl_bind st setIndex vkSet offsets =
     (let history1 = (mHistory st)(vkSet \<mapsto> setOffsets (subscript (mHistory st) vkSet) offsets)
      in if length (mStashedSets st) \<le> unat setIndex then Inl IndexOutOfBounds
         else let lastSet = mStashedSets st ! unat setIndex
              in if lastSet \<noteq> VK_NULL_HANDLE
                 then (case history1 lastSet of
                         None \<Rightarrow> Inl AssertInvariantFailed
                       | Some hl \<Rightarrow>
                           Inr (st\<lparr>mHistory := history1(lastSet \<mapsto> unbind hl),
                                   mStashedSets := (mStashedSets st)[unat setIndex := vkSet]\<rparr>))
                 else Inr (st\<lparr>mHistory := history1,
                              mStashedSets := (mStashedSets st)[unat setIndex := vkSet]\<rparr>))"

text \<open>
  The first loop of \<^verbatim>\<open>Impl::commit\<close> leaves in \<^verbatim>\<open>iterators[i]\<close> the element of the set
  staged in slot \<open>i\<close> when the slot is active and that history is not bound, and
  \<^verbatim>\<open>mHistory.end()\<close> otherwise. An iterator is the key of its element; \<open>None\<close> is
  \<^verbatim>\<open>end()\<close>. The array starts as \<^verbatim>\<open>{mHistory.end()}\<close>, which sets its first element and
  value-initialises the others; a value-initialised iterator is taken to compare equal to
  \<^verbatim>\<open>end()\<close>, as it does in the standard libraries in use.
\<close>

definition iteratorAt :: "'m Impl \<Rightarrow> 8 word \<Rightarrow> nat \<Rightarrow> VkDescriptorSet option" where
  "iteratorAt st activeMask i =
     (if \<not> bit activeMask i then None
      else let vkset = mStashedSets st ! i
           in (case mHistory st vkset of
                 Some h \<Rightarrow> if \<not> bound h then Some vkset else None
               | None \<Rightarrow> None))"

text \<open>The second loop: every iterator that is not \<^verbatim>\<open>end()\<close> binds its history, in slot order.\<close>

fun bindLoop ::
  "VkPipelineLayout \<Rightarrow> (nat \<times> VkDescriptorSet option) list
     \<Rightarrow> (VkDescriptorSet \<rightharpoonup> DescriptorSetHistory) \<Rightarrow> VulkanCommandBuffer
     \<Rightarrow> error + ((VkDescriptorSet \<rightharpoonup> DescriptorSetHistory) \<times> VulkanCommandBuffer)" where
  "bindLoop pl [] hist commands = Inr (hist, commands)"
| "bindLoop pl ((i, None) # rest) hist commands = bindLoop pl rest hist commands"
| "bindLoop pl ((i, Some key) # rest) hist commands =
     (case hist key of
        None \<Rightarrow> Inl InvalidIterator
      | Some h \<Rightarrow>
          (case DescriptorSetHistory_bind h commands pl i of
             Inl e \<Rightarrow> Inl e
           | Inr (h', commands') \<Rightarrow> bindLoop pl rest (hist(key \<mapsto> h')) commands'))"

definition commit ::
  "'m Impl \<Rightarrow> VulkanCommandBuffer \<Rightarrow> VkPipelineLayout \<Rightarrow> 8 word
     \<Rightarrow> error + ('m Impl \<times> VulkanCommandBuffer)" where
  "commit st commands pl activeMask =
     (let slots = [0..<length (mStashedSets st)];
          iterators = map (iteratorAt st activeMask) slots;
          allBound = list_all (\<lambda>itr. itr = None) iterators;
          nextInfo = \<lparr>pipelineLayout = pl, setMask = activeMask, boundSets = mStashedSets st\<rparr>
      in if allBound \<and> BoundInfo_eq (mLastBoundInfo st) nextInfo then Inr (st, commands)
         else (case bindLoop pl (zip slots iterators) (mHistory st) commands of
                 Inl e \<Rightarrow> Inl e
               | Inr (hist, commands') \<Rightarrow>
                   Inr (st\<lparr>mHistory := hist, mLastBoundInfo := nextInfo\<rparr>, commands')))"

text \<open>
  \<^verbatim>\<open>Impl::updateBuffer\<close> and \<^verbatim>\<open>Impl::updateSampler\<close>, on the manager's own state. The
  descriptor write goes to the driver and \<^verbatim>\<open>set->acquire\<close> to the wrapper; neither is read
  back by the manager. Both are \<^verbatim>\<open>noexcept\<close> and assert nothing.
\<close>

definition updateBuffer :: "'m Impl \<Rightarrow> VkDescriptorSet \<Rightarrow> 8 word \<Rightarrow> 'm Impl" where
  "updateBuffer st vkSet binding =
     st\<lparr>mHistory := (mHistory st)(vkSet \<mapsto> write_binding (subscript (mHistory st) vkSet) binding)\<rparr>"

definition updateSampler :: "'m Impl \<Rightarrow> VkDescriptorSet \<Rightarrow> 8 word \<Rightarrow> VulkanTexture \<Rightarrow> 'm Impl" where
  "updateSampler st vkSet binding tex =
     st\<lparr>mHistory := (mHistory st)(vkSet \<mapsto>
           write_texture (subscript (mHistory st) vkSet) binding (primaryViewRange tex) tex)\<rparr>"

text \<open>\<^verbatim>\<open>Impl::destroySet\<close>; the argument is the \<^verbatim>\<open>vkSet\<close> of the wrapper behind the handle.\<close>

definition destroySet :: "'m Impl \<Rightarrow> VkDescriptorSet \<Rightarrow> 'm Impl" where
  "destroySet st vkSet =
     st\<lparr>mHistory := (mHistory st)(vkSet := None),
        mStashedSets := map (\<lambda>s. if s = vkSet then VK_NULL_HANDLE else s) (mStashedSets st)\<rparr>"

section \<open>Notions used to state the properties\<close>

text \<open>What \<^verbatim>\<open>DescriptorSetHistory::bind\<close> leaves of a history.\<close>

definition boundHistory :: "DescriptorSetHistory \<Rightarrow> DescriptorSetHistory" where
  "boundHistory h = h\<lparr>mResources := [], mBound := True\<rparr>"

text \<open>
  The \<^verbatim>\<open>vkCmdBindDescriptorSets\<close> call that binding the history \<open>h\<close> at slot \<open>i\<close>
  records, for a history that has its wrapper.
\<close>

definition bindCall :: "VkPipelineLayout \<Rightarrow> nat \<Rightarrow> DescriptorSetHistory \<Rightarrow> BindDescriptorSets" where
  "bindCall pl i h =
     \<lparr>cmdLayout = pl, firstSet = i, pDescriptorSet = the (mSet h),
      dynamicOffsetCount = dynamicUbo (mSetCount h), pDynamicOffsets = mOffsets h\<rparr>"

text \<open>
  The test \<^verbatim>\<open>allBound && mLastBoundInfo == nextInfo\<close> on which \<^verbatim>\<open>commit\<close> returns
  at once.
\<close>

definition commitSkips :: "'m Impl \<Rightarrow> VkPipelineLayout \<Rightarrow> 8 word \<Rightarrow> bool" where
  "commitSkips st pl m \<longleftrightarrow>
     list_all (\<lambda>i. iteratorAt st m i = None) [0..<length (mStashedSets st)] \<and>
     BoundInfo_eq (mLastBoundInfo st) \<lparr>pipelineLayout = pl, setMask = m, boundSets = mStashedSets st\<rparr>"

text \<open>
  The commands a commit has added to the command buffer \<open>c\<close>, given the buffer \<open>c'\<close>
  after it.
\<close>

definition issued :: "VulkanCommandBuffer \<Rightarrow> VulkanCommandBuffer \<Rightarrow> BindDescriptorSets list" where
  "issued c c' = drop (length (recorded c)) (recorded c')"

text \<open>
  Every tracked history that has a wrapper has the wrapper of its own key, as
  \<^verbatim>\<open>createSet\<close> builds it (\<^verbatim>\<open>mHistory.emplace(vkSet, ...)\<close> with the wrapper made for
  \<^verbatim>\<open>vkSet\<close>).
\<close>

definition wrappersMatch :: "'m Impl \<Rightarrow> bool" where
  "wrappersMatch st \<longleftrightarrow> (\<forall>k h v. mHistory st k = Some h \<and> mSet h = Some v \<longrightarrow> v = k)"

section \<open>Example states\<close>

text \<open>
  A layout with one uniform buffer and four Sub-Pools of that shape: one with two recycled
  handles, one whose free-list entry has been emptied, one with room left and one that is
  full.
\<close>

definition exCount :: DescriptorCount where
  "exCount = \<lparr>ubo = 1, dynamicUbo = 0, sampler = 0, inputAttachment = 0\<rparr>"

definition exLayout :: "nat VulkanDescriptorSetLayout" where
  "exLayout = \<lparr>bitmask = 5, count = exCount, vklayout = 9\<rparr>"

definition exPoolRecycled :: "nat DescriptorPool" where
  "exPoolRecycled =
     \<lparr>mCount = exCount, mCapacity = 2, mSize = 2, mUnusedCount = 2, mUnused = [5 \<mapsto> [3, 4]]\<rparr>"

definition exPoolDrained :: "nat DescriptorPool" where
  "exPoolDrained =
     \<lparr>mCount = exCount, mCapacity = 2, mSize = 1, mUnusedCount = 0, mUnused = [5 \<mapsto> []]\<rparr>"

definition exPoolRoom :: "nat DescriptorPool" where
  "exPoolRoom =
     \<lparr>mCount = exCount, mCapacity = 2, mSize = 1, mUnusedCount = 0, mUnused = Map.empty\<rparr>"

definition exPoolFull :: "nat DescriptorPool" where
  "exPoolFull =
     \<lparr>mCount = exCount, mCapacity = 10, mSize = 10, mUnusedCount = 0, mUnused = Map.empty\<rparr>"



text \<open>
  A manager with three slots. Set 11 is staged in slot 0 and not bound, set 12 is staged in
  slot 1 and bound, slot 2 is empty; the last commit was for pipeline layout 7 with slots 0
  and 1 active. Set 13 has a history and is staged nowhere.
\<close>

definition exHistoryA :: DescriptorSetHistory where
  "exHistoryA =
     \<lparr>mResources = [Some 11], mSet = Some 11, mTextures = [], mOffsets = [],
      mSetCount = exCount, mWritten = 1, mBound = False\<rparr>"

definition exHistoryB :: DescriptorSetHistory where
  "exHistoryB =
     \<lparr>mResources = [], mSet = Some 12, mTextures = [], mOffsets = [],
      mSetCount = exCount, mWritten = 1, mBound = True\<rparr>"

definition exHistoryC :: DescriptorSetHistory where
  "exHistoryC =
     \<lparr>mResources = [Some 13], mSet = Some 13, mTextures = [], mOffsets = [],
      mSetCount = exCount, mWritten = 0, mBound = False\<rparr>"

definition exManager :: "nat Impl" where
  "exManager =
     \<lparr>mDescriptorPool = [exPoolRoom],
      mHistory = [11 \<mapsto> exHistoryA, 12 \<mapsto> exHistoryB, 13 \<mapsto> exHistoryC],
      mStashedSets = [11, 12, 0],
      mLastBoundInfo = \<lparr>pipelineLayout = 7, setMask = 3, boundSets = [11, 12, 0]\<rparr>\<rparr>"

definition exCommands :: VulkanCommandBuffer where
  "exCommands = \<lparr>recorded = [], acquired = []\<rparr>"

text \<open>
  The same manager after the commit for pipeline layout 7 and slots 0 and 1, with the
  command buffer that commit filled.
\<close>

definition exManager1 :: "nat Impl" where
  "exManager1 = exManager\<lparr>mHistory := (mHistory exManager)(11 \<mapsto> boundHistory exHistoryA)\<rparr>"

definition exCommands1 :: VulkanCommandBuffer where
  "exCommands1 = \<lparr>recorded = [bindCall 7 0 exHistoryA], acquired = [Some 11]\<rparr>"

text \<open>
  The manager with set 13 staged in slot 2 as well, and what the commit for pipeline layout
  9 and all three slots makes of it.
\<close>

definition exStaged :: "nat Impl" where
  "exStaged = exManager\<lparr>mStashedSets := [11, 12, 13]\<rparr>"

definition exStaged1 :: "nat Impl" where
  "exStaged1 = exStaged\<lparr>mHistory := (mHistory exStaged)
        (11 \<mapsto> boundHistory exHistoryA, 13 \<mapsto> boundHistory exHistoryC),
      mLastBoundInfo := \<lparr>pipelineLayout = 9, setMask = 7, boundSets = [11, 12, 13]\<rparr>\<rparr>"

definition exCommands2 :: VulkanCommandBuffer where
  "exCommands2 = \<lparr>recorded = [bindCall 9 0 exHistoryA, bindCall 9 2 exHistoryC],
                   acquired = [Some 13, Some 11]\<rparr>"

definition exTexture :: VulkanTexture where
  "exTexture = \<lparr>texture = 40,
     primaryViewRange = \<lparr>aspectMask = 1, baseMipLevel = 0, levelCount = 1,
                          baseArrayLayer = 0, layerCount = 1\<rparr>\<rparr>"

section \<open>The Sub-Pool\<close>

lemma unat_succ_16: "unat (x::16 word) < unat (c::16 word) \<Longrightarrow> unat (x + 1) = unat x + 1"
proof -
  assume a: "unat x < unat c"
  have "unat c < 2 ^ 16" using unsigned_less [of c, where ?'a = nat] by simp
  with a have "unat x + 1 < 2 ^ 16" by simp
  then show ?thesis by (simp add: unat_word_ariths)
qed

lemma obtainSet_pop:
  "mUnused pool (bitmask layout) = Some sets \<Longrightarrow> sets \<noteq> [] \<Longrightarrow>
   DescriptorPool_obtainSet pool layout dev =
     Inr (last sets,
          pool\<lparr>mUnused := (mUnused pool)(bitmask layout \<mapsto> butlast sets),
               mUnusedCount := mUnusedCount pool - 1\<rparr>, dev)"
  by (simp add: DescriptorPool_obtainSet_def)

lemma obtainSet_empty_entry:
  "mUnused pool (bitmask layout) = Some [] \<Longrightarrow>
   DescriptorPool_obtainSet pool layout dev = Inr (VK_NULL_HANDLE, pool, dev)"
  by (simp add: DescriptorPool_obtainSet_def)

lemma obtainSet_fresh:
  "mUnused pool (bitmask layout) = None \<Longrightarrow> unat (mSize pool) < unat (mCapacity pool) \<Longrightarrow>
   vkAllocateDescriptorSets dev = ((VK_SUCCESS, h), dev') \<Longrightarrow>
   DescriptorPool_obtainSet pool layout dev = Inr (h, pool\<lparr>mSize := mSize pool + 1\<rparr>, dev')"
  by (simp add: DescriptorPool_obtainSet_def)

lemma obtainSet_full:
  "mUnused pool (bitmask layout) = None \<Longrightarrow> unat (mCapacity pool) \<le> unat (mSize pool) \<Longrightarrow>
   DescriptorPool_obtainSet pool layout dev = Inr (VK_NULL_HANDLE, pool, dev)"
  by (simp add: DescriptorPool_obtainSet_def)

lemma obtainSet_shape:
  "DescriptorPool_obtainSet pool layout dev = Inr (h, pool', dev') \<Longrightarrow>
   mCapacity pool' = mCapacity pool \<and> mCount pool' = mCount pool"
  by (auto simp add: DescriptorPool_obtainSet_def split: option.splits if_splits prod.splits)

lemma obtainSet_size_le:
  "unat (mSize pool) \<le> unat (mCapacity pool) \<Longrightarrow>
   DescriptorPool_obtainSet pool layout dev = Inr (h, pool', dev') \<Longrightarrow>
   unat (mSize pool') \<le> unat (mCapacity pool')"
  by (auto simp add: DescriptorPool_obtainSet_def unat_succ_16 [where c = "mCapacity pool"]
      split: option.splits if_splits prod.splits)

lemma recycle_entry:
  "mUnused (DescriptorPool_recycle pool m h) m =
     Some ((case mUnused pool m of None \<Rightarrow> [] | Some sets \<Rightarrow> sets) @ [h])"
  by (simp add: DescriptorPool_recycle_def split: option.splits)

lemma recycle_fields:
  "mSize (DescriptorPool_recycle pool m h) = mSize pool \<and>
   mCapacity (DescriptorPool_recycle pool m h) = mCapacity pool \<and>
   mCount (DescriptorPool_recycle pool m h) = mCount pool"
  by (simp add: DescriptorPool_recycle_def split: option.splits)

text \<open>
  C5. \<^verbatim>\<open>DescriptorPool::obtainSet\<close>, case by case. With a free-list entry for the
  layout's mask that is not empty, the last handle pushed is popped and returned. With an
  entry that is empty, the null handle is returned and nothing changes, whatever the
  allocated count is. With no entry and \<open>mSize\<close> below \<open>mCapacity\<close>, the set the driver
  allocates is returned and \<open>mSize\<close> grows by exactly one (the driver's answer being
  \<^verbatim>\<open>VK_SUCCESS\<close>; any other answer is the postcondition panic). With no entry and
  \<open>mSize\<close> at \<open>mCapacity\<close>, the null handle is returned. So \<open>mSize \<le> mCapacity\<close>, true
  of a new pool, is kept by every \<^verbatim>\<open>obtainSet\<close> and every \<^verbatim>\<open>recycle\<close>, and
  \<open>mCapacity\<close> never changes.
\<close>

theorem DescriptorPool_obtainSet_cases:
  "(\<forall>sets. mUnused pool (bitmask layout) = Some sets \<and> sets \<noteq> [] \<longrightarrow>
      DescriptorPool_obtainSet pool layout dev =
        Inr (last sets,
             pool\<lparr>mUnused := (mUnused pool)(bitmask layout \<mapsto> butlast sets),
                  mUnusedCount := mUnusedCount pool - 1\<rparr>, dev))
   \<and> (mUnused pool (bitmask layout) = Some [] \<longrightarrow>
      DescriptorPool_obtainSet pool layout dev = Inr (VK_NULL_HANDLE, pool, dev))
   \<and> (\<forall>h dev'. mUnused pool (bitmask layout) = None \<and> unat (mSize pool) < unat (mCapacity pool)
        \<and> vkAllocateDescriptorSets dev = ((VK_SUCCESS, h), dev') \<longrightarrow>
      DescriptorPool_obtainSet pool layout dev = Inr (h, pool\<lparr>mSize := mSize pool + 1\<rparr>, dev')
      \<and> unat (mSize pool + 1) = unat (mSize pool) + 1)
   \<and> (\<forall>r dev'. mUnused pool (bitmask layout) = None \<and> unat (mSize pool) < unat (mCapacity pool)
        \<and> vkAllocateDescriptorSets dev = (r, dev') \<and> fst r \<noteq> VK_SUCCESS \<longrightarrow>
      DescriptorPool_obtainSet pool layout dev = Inl PostconditionFailed)
   \<and> (mUnused pool (bitmask layout) = None \<and> unat (mCapacity pool) \<le> unat (mSize pool) \<longrightarrow>
      DescriptorPool_obtainSet pool layout dev = Inr (VK_NULL_HANDLE, pool, dev))
   \<and> (\<forall>h pool' dev'. unat (mSize pool) \<le> unat (mCapacity pool)
        \<and> DescriptorPool_obtainSet pool layout dev = Inr (h, pool', dev') \<longrightarrow>
      unat (mSize pool') \<le> unat (mCapacity pool') \<and> mCapacity pool' = mCapacity pool)
   \<and> unat (mSize (DescriptorPool_ctor cnt cap :: 'a DescriptorPool)) \<le> unat cap
   \<and> mCapacity (DescriptorPool_ctor cnt cap :: 'a DescriptorPool) = cap
   \<and> mSize (DescriptorPool_recycle pool layoutMask vkSet) = mSize pool
   \<and> mCapacity (DescriptorPool_recycle pool layoutMask vkSet) = mCapacity pool"
proof -
  have panic: "\<And>r dev'. mUnused pool (bitmask layout) = None \<Longrightarrow>
      unat (mSize pool) < unat (mCapacity pool) \<Longrightarrow>
      vkAllocateDescriptorSets dev = (r, dev') \<Longrightarrow> fst r \<noteq> VK_SUCCESS \<Longrightarrow>
      DescriptorPool_obtainSet pool layout dev = Inl PostconditionFailed"
    by (auto simp add: DescriptorPool_obtainSet_def split: prod.splits)
  have ctor: "unat (mSize (DescriptorPool_ctor cnt cap :: 'a DescriptorPool)) \<le> unat cap"
    "mCapacity (DescriptorPool_ctor cnt cap :: 'a DescriptorPool) = cap"
    by (simp_all add: DescriptorPool_ctor_def)
  show ?thesis
    using obtainSet_pop [of pool layout _ dev] obtainSet_empty_entry [of pool layout dev]
      obtainSet_fresh [of pool layout dev] obtainSet_full [of pool layout dev]
      obtainSet_shape [of pool layout dev] obtainSet_size_le [of pool layout dev]
      unat_succ_16 [of "mSize pool" "mCapacity pool"] panic ctor
      recycle_fields [of pool layoutMask vkSet]
    by blast
qed

theorem DescriptorPool_obtainSet_cases_witness:
  "DescriptorPool_obtainSet exPoolRecycled exLayout [] =
     Inr (4, exPoolRecycled\<lparr>mUnused := [5 \<mapsto> [3]], mUnusedCount := 1\<rparr>, [])
   \<and> unat (mSize exPoolDrained) < unat (mCapacity exPoolDrained)
   \<and> DescriptorPool_obtainSet exPoolDrained exLayout [(VK_SUCCESS, 77)] =
       Inr (VK_NULL_HANDLE, exPoolDrained, [(VK_SUCCESS, 77)])
   \<and> DescriptorPool_obtainSet exPoolRoom exLayout [(VK_SUCCESS, 77)] =
       Inr (77, exPoolRoom\<lparr>mSize := 2\<rparr>, [])
   \<and> DescriptorPool_obtainSet exPoolRoom exLayout [] = Inl PostconditionFailed
   \<and> DescriptorPool_obtainSet exPoolFull exLayout [(VK_SUCCESS, 77)] =
       Inr (VK_NULL_HANDLE, exPoolFull, [(VK_SUCCESS, 77)])
   \<and> unat (mSize (exPoolRoom\<lparr>mSize := 2\<rparr>)) \<le> unat (mCapacity (exPoolRoom\<lparr>mSize := 2\<rparr>))"
proof -
  have a: "mUnused exPoolRecycled (bitmask exLayout) = Some [3, 4] \<and> [3, 4] \<noteq> ([] :: VkDescriptorSet list)"
    by (simp add: exPoolRecycled_def exLayout_def)
  have b: "mUnused exPoolDrained (bitmask exLayout) = Some []"
    by (simp add: exPoolDrained_def exLayout_def)
  have c: "mUnused exPoolRoom (bitmask exLayout) = None \<and>
      unat (mSize exPoolRoom) < unat (mCapacity exPoolRoom) \<and>
      vkAllocateDescriptorSets [(VK_SUCCESS, 77)] = ((VK_SUCCESS, 77), [])"
    by (simp add: exPoolRoom_def exLayout_def)
  have d: "mUnused exPoolRoom (bitmask exLayout) = None \<and>
      unat (mSize exPoolRoom) < unat (mCapacity exPoolRoom) \<and>
      vkAllocateDescriptorSets [] = ((VK_ERROR_OUT_OF_POOL_MEMORY, VK_NULL_HANDLE), []) \<and>
      fst (VK_ERROR_OUT_OF_POOL_MEMORY, VK_NULL_HANDLE) \<noteq> VK_SUCCESS"
    by (simp add: exPoolRoom_def exLayout_def)
  have e: "mUnused exPoolFull (bitmask exLayout) = None \<and>
      unat (mCapacity exPoolFull) \<le> unat (mSize exPoolFull)"
    by (simp add: exPoolFull_def exLayout_def)
  have f: "unat (mSize exPoolRoom) \<le> unat (mCapacity exPoolRoom)"
    by (simp add: exPoolRoom_def)
  have "DescriptorPool_obtainSet exPoolRecycled exLayout [] =
     Inr (last [3, 4],
          exPoolRecycled\<lparr>mUnused := (mUnused exPoolRecycled)(bitmask exLayout \<mapsto> butlast [3, 4]),
                         mUnusedCount := mUnusedCount exPoolRecycled - 1\<rparr>, [])"
    using DescriptorPool_obtainSet_cases [where pool = exPoolRecycled and layout = exLayout
        and dev = "[]"] a
    by blast
  then have 1: "DescriptorPool_obtainSet exPoolRecycled exLayout [] =
     Inr (4, exPoolRecycled\<lparr>mUnused := [5 \<mapsto> [3]], mUnusedCount := 1\<rparr>, [])"
    by (simp add: exPoolRecycled_def exLayout_def)
  have 2: "DescriptorPool_obtainSet exPoolDrained exLayout [(VK_SUCCESS, 77)] =
       Inr (VK_NULL_HANDLE, exPoolDrained, [(VK_SUCCESS, 77)])"
    using DescriptorPool_obtainSet_cases [where pool = exPoolDrained and layout = exLayout
        and dev = "[(VK_SUCCESS, 77)]"] b
    by blast
  have 3: "DescriptorPool_obtainSet exPoolRoom exLayout [(VK_SUCCESS, 77)] =
       Inr (77, exPoolRoom\<lparr>mSize := mSize exPoolRoom + 1\<rparr>, [])"
    using DescriptorPool_obtainSet_cases [where pool = exPoolRoom and layout = exLayout
        and dev = "[(VK_SUCCESS, 77)]"] c
    by blast
  have 4: "DescriptorPool_obtainSet exPoolRoom exLayout [] = Inl PostconditionFailed"
    using DescriptorPool_obtainSet_cases [where pool = exPoolRoom and layout = exLayout
        and dev = "[]"] d
    by blast
  have 5: "DescriptorPool_obtainSet exPoolFull exLayout [(VK_SUCCESS, 77)] =
       Inr (VK_NULL_HANDLE, exPoolFull, [(VK_SUCCESS, 77)])"
    using DescriptorPool_obtainSet_cases [where pool = exPoolFull and layout = exLayout
        and dev = "[(VK_SUCCESS, 77)]"] e
    by blast
  have 6: "unat (mSize (exPoolRoom\<lparr>mSize := mSize exPoolRoom + 1\<rparr>))
      \<le> unat (mCapacity (exPoolRoom\<lparr>mSize := mSize exPoolRoom + 1\<rparr>))"
    using DescriptorPool_obtainSet_cases [where pool = exPoolRoom and layout = exLayout
        and dev = "[(VK_SUCCESS, 77)]"] f 3
    by blast
  have s: "mSize exPoolRoom + 1 = 2" by (simp add: exPoolRoom_def)
  have g: "unat (mSize exPoolDrained) < unat (mCapacity exPoolDrained)"
    by (simp add: exPoolDrained_def)
  from 1 2 3 4 5 6 g show ?thesis unfolding s by simp
qed

text \<open>
  C6. Within one Sub-Pool, recycling \<open>h1\<close> and then \<open>h2\<close> under the mask of a layout and
  obtaining twice for that layout returns \<open>h2\<close> and then \<open>h1\<close>, without a call to the
  driver, and leaves the free-list entry as it was before. \<^verbatim>\<open>recycle\<close> is a total
  function (it cannot fail) and leaves \<open>mSize\<close> and \<open>mCapacity\<close> alone.
\<close>

theorem DescriptorPool_recycle_obtain_lifo:
  "(case DescriptorPool_obtainSet
           (DescriptorPool_recycle (DescriptorPool_recycle pool (bitmask layout) h1) (bitmask layout) h2)
           layout dev of
      Inl e \<Rightarrow> False
    | Inr (first, pool1, dev1) \<Rightarrow>
        first = h2 \<and> dev1 = dev \<and>
        (case DescriptorPool_obtainSet pool1 layout dev of
           Inl e \<Rightarrow> False
         | Inr (second, pool2, dev2) \<Rightarrow>
             second = h1 \<and> dev2 = dev \<and> mSize pool2 = mSize pool \<and>
             mUnused pool2 (bitmask layout) =
               Some (case mUnused pool (bitmask layout) of None \<Rightarrow> [] | Some sets \<Rightarrow> sets)))
   \<and> mSize (DescriptorPool_recycle pool (bitmask layout) h1) = mSize pool
   \<and> mCapacity (DescriptorPool_recycle pool (bitmask layout) h1) = mCapacity pool"
proof -
  let ?m = "bitmask layout"
  let ?old = "case mUnused pool ?m of None \<Rightarrow> [] | Some sets \<Rightarrow> sets"
  let ?r1 = "DescriptorPool_recycle pool ?m h1"
  let ?r2 = "DescriptorPool_recycle ?r1 ?m h2"
  let ?p1 = "?r2\<lparr>mUnused := (mUnused ?r2)(?m \<mapsto> ?old @ [h1]),
                  mUnusedCount := mUnusedCount ?r2 - 1\<rparr>"
  let ?p2 = "?p1\<lparr>mUnused := (mUnused ?p1)(?m \<mapsto> ?old),
                  mUnusedCount := mUnusedCount ?p1 - 1\<rparr>"
  have e2: "mUnused ?r2 ?m = Some ((?old @ [h1]) @ [h2])"
    by (simp add: recycle_entry)
  have b2: "butlast ((?old @ [h1]) @ [h2]) = ?old @ [h1]"
    by (rule butlast_snoc)
  have o1: "DescriptorPool_obtainSet ?r2 layout dev = Inr (h2, ?p1, dev)"
    using obtainSet_pop [OF e2, of dev] unfolding b2 by simp
  have e1: "mUnused ?p1 ?m = Some (?old @ [h1])"
    by simp
  have o2: "DescriptorPool_obtainSet ?p1 layout dev = Inr (h1, ?p2, dev)"
    using obtainSet_pop [OF e1, of dev] by simp
  have s2: "mSize ?p2 = mSize pool"
    by (simp add: recycle_fields)
  show ?thesis
    unfolding o1 by (simp add: o2 s2 recycle_fields)
qed

theorem DescriptorPool_recycle_obtain_lifo_witness:
  "DescriptorPool_obtainSet
     (DescriptorPool_recycle (DescriptorPool_recycle exPoolFull 5 21) 5 22) exLayout [] =
     Inr (22, exPoolFull\<lparr>mUnused := [5 \<mapsto> [21]], mUnusedCount := 1\<rparr>, [])
   \<and> DescriptorPool_obtainSet (exPoolFull\<lparr>mUnused := [5 \<mapsto> [21]], mUnusedCount := 1\<rparr>) exLayout [] =
     Inr (21, exPoolFull\<lparr>mUnused := [5 \<mapsto> []], mUnusedCount := 0\<rparr>, [])
   \<and> mSize (DescriptorPool_recycle exPoolFull 5 21) = 10"
  using DescriptorPool_recycle_obtain_lifo [where pool = exPoolFull and layout = exLayout
      and ?h1.0 = 21 and ?h2.0 = 22 and dev = "[]"]
  by (simp add: exPoolFull_def exLayout_def DescriptorPool_recycle_def DescriptorPool_obtainSet_def)

section \<open>The Growing Pool Manager\<close>

lemma keepPool_Exhausted:
  "keepPool pool r = Inr (Exhausted same pools dev) \<Longrightarrow>
   \<exists>pools'. r = Inr (Exhausted same pools' dev) \<and> pools = pool # pools'"
  by (cases "(pool, r)" rule: keepPool.cases) auto

lemma Max_step:
  "finite A \<Longrightarrow>
   Max (insert (c::16 word) A \<union> set_option same) =
   Max (A \<union> set_option (case same of None \<Rightarrow> Some c | Some a \<Rightarrow> if a < c then Some c else Some a))"
  apply (cases same)
   apply simp
  apply (cases "A = {}")
   apply (auto simp add: max_def)
  done

text \<open>
  A scan that runs off the end of \<^verbatim>\<open>mPools\<close> leaves the shape and capacity of every
  pool as they were, and \<^verbatim>\<open>sameTypePool\<close> at the largest capacity among the pools of
  the requested shape.
\<close>

lemma scanPools_Exhausted:
  "scanPools layout pools same dev = Inr (Exhausted same' pools' dev') \<Longrightarrow>
   map mCapacity pools' = map mCapacity pools \<and> map mCount pools' = map mCount pools \<and>
   same' = (let S = set (map capacity (filter (\<lambda>p. canAllocate p (count layout)) pools))
                      \<union> set_option same
            in if S = {} then None else Some (Max S))"
proof (induction pools arbitrary: same dev pools')
  case Nil
  then show ?case by (cases same) auto
next
  case (Cons pool rest)
  show ?case
  proof (cases "canAllocate pool (count layout)")
    case False
    with Cons.prems obtain ps where
      r: "scanPools layout rest same dev = Inr (Exhausted same' ps dev')" and p: "pools' = pool # ps"
      by (auto dest: keepPool_Exhausted)
    from Cons.IH [OF r] p False show ?thesis by simp
  next
    case True
    with Cons.prems obtain vk pool1 dev1 where
      o: "DescriptorPool_obtainSet pool layout dev = Inr (vk, pool1, dev1)"
      by (auto split: sum.splits)
    let ?same1 = "case same of None \<Rightarrow> Some (capacity pool1)
                  | Some c \<Rightarrow> if c < capacity pool1 then Some (capacity pool1) else Some c"
    from Cons.prems True o have k: "keepPool pool1 (scanPools layout rest ?same1 dev1) =
        Inr (Exhausted same' pools' dev')"
      by (auto split: if_splits)
    then obtain ps where
      r: "scanPools layout rest ?same1 dev1 = Inr (Exhausted same' ps dev')" and p: "pools' = pool1 # ps"
      by (auto dest: keepPool_Exhausted)
    have c: "capacity pool1 = capacity pool" and m: "mCount pool1 = mCount pool"
      and mc: "mCapacity pool1 = mCapacity pool"
      using obtainSet_shape [OF o] by (simp_all add: capacity_def)
    let ?A = "set (map capacity (filter (\<lambda>p. canAllocate p (count layout)) rest))"
    have fin: "finite ?A" by simp
    have ne: "set_option ?same1 \<noteq> {}" by (cases same) auto
    from Cons.IH [OF r] have ih: "map mCapacity ps = map mCapacity rest"
      "map mCount ps = map mCount rest"
      "same' = Some (Max (?A \<union> set_option ?same1))"
      using ne by (simp_all add: Let_def)
    have "Max (insert (capacity pool) ?A \<union> set_option same) = Max (?A \<union> set_option ?same1)"
      unfolding c using Max_step [OF fin, of "capacity pool" same] by simp
    with ih p True c m mc show ?thesis by (simp add: Let_def)
  qed
qed


lemma unat_of_nat_16: "n < 65536 \<Longrightarrow> unat (of_nat n :: 16 word) = n"
  by (simp add: unat_of_nat)

lemma keepPool_Found:
  "keepPool pool r = Inr (Found vk pools dev) \<Longrightarrow>
   \<exists>pools'. r = Inr (Found vk pools' dev) \<and> pools = pool # pools'"
  by (cases "(pool, r)" rule: keepPool.cases) auto

lemma scanPools_Found:
  "scanPools layout pools same dev = Inr (Found vk pools' dev') \<Longrightarrow>
   map mCapacity pools' = map mCapacity pools \<and> map mCount pools' = map mCount pools"
proof (induction pools arbitrary: same dev pools')
  case Nil
  then show ?case by simp
next
  case (Cons pool rest)
  show ?case
  proof (cases "canAllocate pool (count layout)")
    case False
    with Cons.prems obtain ps where
      r: "scanPools layout rest same dev = Inr (Found vk ps dev')" and p: "pools' = pool # ps"
      by (auto dest: keepPool_Found)
    from Cons.IH [OF r] p show ?thesis by simp
  next
    case True
    with Cons.prems obtain v pool1 dev1 where
      o: "DescriptorPool_obtainSet pool layout dev = Inr (v, pool1, dev1)"
      by (auto split: sum.splits)
    note sh = obtainSet_shape [OF o]
    show ?thesis
    proof (cases "v \<noteq> VK_NULL_HANDLE")
      case True
      with Cons.prems \<open>canAllocate pool (count layout)\<close> o have "pools' = pool1 # rest" by simp
      with sh show ?thesis by simp
    next
      case False
      let ?same1 = "case same of None \<Rightarrow> Some (capacity pool1)
                    | Some c \<Rightarrow> if c < capacity pool1 then Some (capacity pool1) else Some c"
      from Cons.prems \<open>canAllocate pool (count layout)\<close> o False
      have "keepPool pool1 (scanPools layout rest ?same1 dev1) = Inr (Found vk pools' dev')"
        by simp
      then obtain ps where
        r: "scanPools layout rest ?same1 dev1 = Inr (Found vk ps dev')" and p: "pools' = pool1 # ps"
        by (auto dest: keepPool_Found)
      from Cons.IH [OF r] p sh show ?thesis by simp
    qed
  qed
qed

text \<open>
  Every pool the Growing Pool Manager ever holds has a capacity of at least 10: the first
  pool of a shape has 10, and growing never shrinks.
\<close>

lemma DescriptorInfinitePool_obtainSet_capacities:
  assumes inv: "\<forall>p \<in> set mPools. 10 \<le> unat (capacity p)"
    and ok: "DescriptorInfinitePool_obtainSet fromLayoutBitmask mPools layout dev = Inr (h, pools', dev')"
  shows "\<forall>p \<in> set pools'. 10 \<le> unat (capacity p)"
proof -
  have keep: "\<forall>p \<in> set ps. 10 \<le> unat (capacity p)" if "map mCapacity ps = map mCapacity mPools" for ps
  proof -
    from that have "set (map mCapacity ps) = set (map mCapacity mPools)" by simp
    then have "mCapacity ` set ps = mCapacity ` set mPools" by simp
    show ?thesis
    proof
      fix p assume "p \<in> set ps"
      then have "mCapacity p \<in> mCapacity ` set mPools" using \<open>mCapacity ` set ps = mCapacity ` set mPools\<close>
        by blast
      then obtain q where "q \<in> set mPools" "mCapacity q = mCapacity p" by auto
      with inv show "10 \<le> unat (capacity p)" by (auto simp add: capacity_def)
    qed
  qed
  from ok obtain r where scan: "scanPools layout mPools None dev = Inr r"
    by (auto simp add: DescriptorInfinitePool_obtainSet_def split: sum.splits)
  show ?thesis
  proof (cases r)
    case (Found vk ps d)
    with ok scan have "pools' = ps" by (simp add: DescriptorInfinitePool_obtainSet_def)
    with scanPools_Found [OF scan [unfolded Found]] keep [of ps] show ?thesis by blast
  next
    case (Exhausted same ps d)
    note ex = scanPools_Exhausted [OF scan [unfolded Exhausted]]
    from ok scan Exhausted obtain cap pool where
      cap: "(case same of None \<Rightarrow> Inr EXPECTED_SET_COUNT | Some c \<Rightarrow> grownCapacity c) = Inr cap"
      and o: "DescriptorPool_obtainSet (DescriptorPool_ctor (fromLayoutBitmask (bitmask layout)) cap) layout d
              = Inr (h, pool, dev')"
      and p: "pools' = ps @ [pool]"
      by (auto simp add: DescriptorInfinitePool_obtainSet_def split: sum.splits if_splits)
    have "10 \<le> unat cap"
    proof (cases same)
      case None
      with cap show ?thesis by (simp add: EXPECTED_SET_COUNT_def)
    next
      case (Some c)
      let ?caps = "map capacity (filter (\<lambda>p. canAllocate p (count layout)) mPools)"
      from ex Some have ne: "set ?caps \<noteq> {}" and c: "c = Max (set ?caps)"
        by (auto simp add: Let_def split: if_splits)
      then have "c \<in> set ?caps" using Max_in [of "set ?caps"] by simp
      with inv have c10: "10 \<le> unat c" by auto
      from cap Some have "(3 * unat c + 1) div 2 < 65536"
        and "cap = of_nat ((3 * unat c + 1) div 2)"
        by (auto simp add: grownCapacity_def Let_def split: if_splits)
      then have "unat cap = (3 * unat c + 1) div 2" by (simp add: unat_of_nat_16)
      with c10 show ?thesis by arith
    qed
    moreover from obtainSet_shape [OF o] have "capacity pool = cap"
      by (simp add: capacity_def DescriptorPool_ctor_def)
    ultimately show ?thesis using keep [of ps] ex p by auto
  qed
qed




text \<open>
  C10. \<^verbatim>\<open>DescriptorInfinitePool::recycle\<close> with a shape that no pool has: the loop skips
  every pool, so the vector of pools is returned exactly as it was. The function has no
  assertion and no error result.
\<close>

theorem DescriptorInfinitePool_recycle_no_pool:
  "\<forall>pool \<in> set mPools. \<not> canAllocate pool cnt \<Longrightarrow>
   DescriptorInfinitePool_recycle mPools cnt layoutMask vkSet = mPools"
  by (induction mPools) auto

theorem DescriptorInfinitePool_recycle_no_pool_witness:
  "\<not> canAllocate exPoolFull (exCount\<lparr>sampler := 2\<rparr>)
   \<and> \<not> canAllocate exPoolRecycled (exCount\<lparr>sampler := 2\<rparr>)
   \<and> DescriptorInfinitePool_recycle [exPoolFull, exPoolRecycled] (exCount\<lparr>sampler := 2\<rparr>) 5 21 =
       [exPoolFull, exPoolRecycled]"
proof -
  have n: "\<forall>pool \<in> set [exPoolFull, exPoolRecycled]. \<not> canAllocate pool (exCount\<lparr>sampler := 2\<rparr>)"
    by (simp add: canAllocate_def exPoolFull_def exPoolRecycled_def exCount_def)
  from DescriptorInfinitePool_recycle_no_pool [OF n] n show ?thesis by simp
qed

section \<open>The Set Manager: commit\<close>

lemma history_bind_Inr:
  "DescriptorSetHistory_bind h c pl i = Inr (h', c') \<Longrightarrow>
   h' = boundHistory h \<and> recorded c' = recorded c @ [bindCall pl i h] \<and> mSet h \<noteq> None"
  by (auto simp add: DescriptorSetHistory_bind_def boundHistory_def bindCall_def split: option.splits)

lemma bindCall_boundHistory [simp]: "bindCall pl i (boundHistory h) = bindCall pl i h"
  by (simp add: bindCall_def boundHistory_def)

lemma boundHistory_idem [simp]: "boundHistory (boundHistory h) = boundHistory h"
  by (simp add: boundHistory_def)

text \<open>
  The second loop, when it returns: the histories the iterators point to are bound, the
  others are untouched, and one call per iterator is recorded, in the order of the slots.
\<close>

lemma bindLoop_Inr:
  "bindLoop pl xs hist c = Inr (hist', c') \<Longrightarrow>
   (\<forall>k. hist' k = (if Some k \<in> snd ` set xs then map_option boundHistory (hist k) else hist k))
   \<and> recorded c' = recorded c @ map (\<lambda>(i, k). bindCall pl i (the (hist k)))
                                   (concat (map (\<lambda>(i, it). case it of None \<Rightarrow> [] | Some k \<Rightarrow> [(i, k)]) xs))"
proof (induction pl xs hist c rule: bindLoop.induct)
  case (1 pl hist commands)
  then show ?case by simp
next
  case (2 pl i rest hist commands)
  then show ?case by simp
next
  case (3 pl i key rest hist commands)
  from "3.prems" obtain h where h: "hist key = Some h"
    by (auto split: option.splits)
  with "3.prems" obtain h1 c1 where b: "DescriptorSetHistory_bind h commands pl i = Inr (h1, c1)"
    and r: "bindLoop pl rest (hist(key \<mapsto> h1)) c1 = Inr (hist', c')"
    by (auto split: sum.splits)
  from history_bind_Inr [OF b] have h1: "h1 = boundHistory h"
    and c1: "recorded c1 = recorded commands @ [bindCall pl i h]" by simp_all
  from "3.IH" [OF h b refl r] have
    ih1: "\<forall>k. hist' k = (if Some k \<in> snd ` set rest then map_option boundHistory ((hist(key \<mapsto> h1)) k)
                          else (hist(key \<mapsto> h1)) k)"
    and ih2: "recorded c' = recorded c1 @ map (\<lambda>(i, k). bindCall pl i (the ((hist(key \<mapsto> h1)) k)))
                (concat (map (\<lambda>(i, it). case it of None \<Rightarrow> [] | Some k \<Rightarrow> [(i, k)]) rest))"
    by simp_all
  have same: "\<And>j k. bindCall pl j (the ((hist(key \<mapsto> h1)) k)) = bindCall pl j (the (hist k))"
    using h h1 by simp
  have A: "\<forall>k. hist' k = (if Some k \<in> snd ` set ((i, Some key) # rest)
                             then map_option boundHistory (hist k) else hist k)"
    using ih1 h h1 by (auto simp add: image_iff)
  have B: "recorded c' = recorded commands @ map (\<lambda>(i, k). bindCall pl i (the (hist k)))
       (concat (map (\<lambda>(i, it). case it of None \<Rightarrow> [] | Some k \<Rightarrow> [(i, k)]) ((i, Some key) # rest)))"
    using ih2 [unfolded same] c1 h by simp
  from A B show ?case by blast
qed

lemma iteratorAt_Some:
  "iteratorAt st m i = Some k \<longleftrightarrow>
     bit m i \<and> k = mStashedSets st ! i \<and> (\<exists>h. mHistory st k = Some h \<and> \<not> bound h)"
  by (auto simp add: iteratorAt_def Let_def split: option.splits)

lemma iteratorAt_None:
  "iteratorAt st m i = None \<longleftrightarrow>
     \<not> (bit m i \<and> (case mHistory st (mStashedSets st ! i) of None \<Rightarrow> False | Some h \<Rightarrow> \<not> bound h))"
  by (auto simp add: iteratorAt_def Let_def split: option.splits)

lemma iteratorAt_the:
  "iteratorAt st m i \<noteq> None \<Longrightarrow> the (iteratorAt st m i) = mStashedSets st ! i"
  by (auto simp add: iteratorAt_def Let_def split: option.splits if_splits)

lemma concat_zip_iterators:
  "concat (map (\<lambda>(i, it). case it of None \<Rightarrow> [] | Some k \<Rightarrow> [(i, k)]) (zip slots (map f slots))) =
   map (\<lambda>i. (i, the (f i))) (filter (\<lambda>i. f i \<noteq> None) slots)"
  by (induction slots) (auto split: option.splits)

lemma BoundInfo_eq_refl: "BoundInfo_eq info info"
  by (simp add: BoundInfo_eq_def list_all_iff)

lemma commit_skip: "commitSkips st pl m \<Longrightarrow> commit st c pl m = Inr (st, c)"
  by (simp add: commit_def commitSkips_def Let_def list_all_iff)

text \<open>A commit that does not return at once, when it returns.\<close>

lemma commit_binds:
  assumes ns: "\<not> commitSkips st pl m" and ok: "commit st c pl m = Inr (st', c')"
  shows "\<exists>hist'. st' = st\<lparr>mHistory := hist',
              mLastBoundInfo := \<lparr>pipelineLayout = pl, setMask = m, boundSets = mStashedSets st\<rparr>\<rparr>
     \<and> (\<forall>k. hist' k = (if Some k \<in> iteratorAt st m ` {0..<length (mStashedSets st)}
                         then map_option boundHistory (mHistory st k) else mHistory st k))
     \<and> recorded c' = recorded c @ map (\<lambda>i. bindCall pl i (the (mHistory st (mStashedSets st ! i))))
                         (filter (\<lambda>i. iteratorAt st m i \<noteq> None) [0..<length (mStashedSets st)])"
proof -
  let ?slots = "[0..<length (mStashedSets st)]"
  let ?its = "map (iteratorAt st m) ?slots"
  from ns have ns': "\<not> (list_all (\<lambda>itr. itr = None) ?its \<and>
      BoundInfo_eq (mLastBoundInfo st) \<lparr>pipelineLayout = pl, setMask = m, boundSets = mStashedSets st\<rparr>)"
    by (simp add: commitSkips_def list_all_iff)
  from ok ns' obtain hist' where
    b: "bindLoop pl (zip ?slots ?its) (mHistory st) c = Inr (hist', c')"
    and s: "st' = st\<lparr>mHistory := hist',
              mLastBoundInfo := \<lparr>pipelineLayout = pl, setMask = m, boundSets = mStashedSets st\<rparr>\<rparr>"
    by (auto simp add: commit_def Let_def split: sum.splits if_splits)
  have img: "snd ` set (zip ?slots ?its) = iteratorAt st m ` {0..<length (mStashedSets st)}"
  proof -
    have "map snd (zip ?slots ?its) = ?its" by (rule map_snd_zip) simp
    then have "set (map snd (zip ?slots ?its)) = set ?its" by (rule arg_cong)
    then show ?thesis by (simp only: set_map set_upt)
  qed
  have cmds: "map (\<lambda>(i, k). bindCall pl i (the (mHistory st k)))
        (concat (map (\<lambda>(i, it). case it of None \<Rightarrow> [] | Some k \<Rightarrow> [(i, k)]) (zip ?slots ?its))) =
      map (\<lambda>i. bindCall pl i (the (mHistory st (mStashedSets st ! i))))
        (filter (\<lambda>i. iteratorAt st m i \<noteq> None) ?slots)"
    unfolding concat_zip_iterators by (simp add: iteratorAt_the)
  from bindLoop_Inr [OF b] s show ?thesis unfolding img cmds by blast
qed

text \<open>
  C1. A commit that returns, followed at once by a commit with the same pipeline layout and
  the same mask: the second returns the manager and the command buffer exactly as it got
  them. It records no command and changes no history.
\<close>

theorem commit_twice_noop:
  assumes ok: "commit st c pl m = Inr (st1, c1)"
  shows "commit st1 c1 pl m = Inr (st1, c1)"
proof (cases "commitSkips st pl m")
  case True
  from commit_skip [OF True, of c] ok have "st1 = st" "c1 = c" by simp_all
  with commit_skip [OF True] show ?thesis by simp
next
  case False
  from commit_binds [OF False ok] obtain hist' where
    s: "st1 = st\<lparr>mHistory := hist',
            mLastBoundInfo := \<lparr>pipelineLayout = pl, setMask = m, boundSets = mStashedSets st\<rparr>\<rparr>"
    and h: "\<forall>k. hist' k = (if Some k \<in> iteratorAt st m ` {0..<length (mStashedSets st)}
                         then map_option boundHistory (mHistory st k) else mHistory st k)"
    by blast
  have none: "iteratorAt st1 m i = None" if i: "i < length (mStashedSets st)" for i
  proof (rule ccontr)
    assume "iteratorAt st1 m i \<noteq> None"
    then obtain k where k: "iteratorAt st1 m i = Some k" by auto
    then have "bit m i \<and> k = mStashedSets st1 ! i \<and> (\<exists>h1. mHistory st1 k = Some h1 \<and> \<not> bound h1)"
      using iteratorAt_Some [of st1 m i k] by blast
    moreover have "mStashedSets st1 = mStashedSets st" and "mHistory st1 = hist'"
      using s by simp_all
    ultimately have "bit m i \<and> k = mStashedSets st ! i \<and> (\<exists>h1. hist' k = Some h1 \<and> \<not> bound h1)"
      by metis
    then have b: "bit m i" and ki: "k = mStashedSets st ! i"
      and "\<exists>h1. hist' k = Some h1 \<and> \<not> bound h1"
      by blast+
    then obtain h1 where h1: "hist' k = Some h1" "\<not> bound h1" by blast
    show False
    proof (cases "Some k \<in> iteratorAt st m ` {0..<length (mStashedSets st)}")
      case True
      with h h1 have "\<exists>h0. h1 = boundHistory h0" by auto
      with h1 show False by (auto simp add: bound_def boundHistory_def)
    next
      case False
      with h h1 have "mHistory st k = Some h1" by simp
      with b ki h1 have "iteratorAt st m i = Some k" by (simp add: iteratorAt_Some)
      with i False show False by (metis atLeastLessThan_iff image_eqI zero_le)
    qed
  qed
  have "commitSkips st1 pl m"
    using none s by (simp add: commitSkips_def list_all_iff BoundInfo_eq_refl)
  then show ?thesis by (rule commit_skip)
qed

lemma upt_3: "[0..<3] = [0, 1, 2]"
  by (simp add: upt_rec)

lemmas ex_defs = exManager_def exCommands_def exHistoryA_def exHistoryB_def exHistoryC_def
  exCount_def VK_NULL_HANDLE_def exStaged_def exStaged1_def exCommands2_def exManager1_def
  exCommands1_def

lemmas eval_defs = commit_def Let_def upt_3 iteratorAt_def bound_def BoundInfo_eq_def
  DescriptorSetHistory_bind_def boundHistory_def bindCall_def issued_def
  updateBuffer_def updateSampler_def Impl_bind_def subscript_def write_binding_def
  write_texture_def setOffsets_def unbind_def exTexture_def ex_defs

lemma commit_exManager:
  "commit exManager exCommands 7 3 = Inr (exManager1, exCommands1)"
  by (simp add: eval_defs)

theorem commit_twice_noop_witness:
  "commit exManager exCommands 7 3 = Inr (exManager1, exCommands1)
   \<and> commit exManager1 exCommands1 7 3 = Inr (exManager1, exCommands1)"
  using commit_twice_noop [OF commit_exManager] commit_exManager by simp

text \<open>
  C2. A commit that does not return at once, when it returns: the calls it records are
  exactly the binds of the active slots whose staged set has a history that is not bound,
  one per such slot, in increasing slot order, each with the pipeline layout of the commit;
  and the pipeline layout, the mask and the staged sets become the last-committed state.
\<close>

theorem commit_binds_unbound_slots:
  assumes ns: "\<not> commitSkips st pl m" and ok: "commit st c pl m = Inr (st', c')"
  shows "recorded c' = recorded c @ issued c c'
     \<and> issued c c' =
         map (\<lambda>i. bindCall pl i (the (mHistory st (mStashedSets st ! i))))
           (filter (\<lambda>i. bit m i \<and> (case mHistory st (mStashedSets st ! i) of
                                      None \<Rightarrow> False | Some h \<Rightarrow> \<not> bound h))
              [0..<length (mStashedSets st)])
     \<and> map firstSet (issued c c') =
         filter (\<lambda>i. bit m i \<and> (case mHistory st (mStashedSets st ! i) of
                                    None \<Rightarrow> False | Some h \<Rightarrow> \<not> bound h))
           [0..<length (mStashedSets st)]
     \<and> sorted_wrt (<) (map firstSet (issued c c'))
     \<and> mLastBoundInfo st' = \<lparr>pipelineLayout = pl, setMask = m, boundSets = mStashedSets st\<rparr>
     \<and> mStashedSets st' = mStashedSets st"
proof -
  let ?P = "\<lambda>i. bit m i \<and> (case mHistory st (mStashedSets st ! i) of
                              None \<Rightarrow> False | Some h \<Rightarrow> \<not> bound h)"
  let ?slots = "[0..<length (mStashedSets st)]"
  have P: "(\<lambda>i. iteratorAt st m i \<noteq> None) = ?P"
    by (rule ext) (simp add: iteratorAt_None)
  from commit_binds [OF ns ok] obtain hist' where
    s: "st' = st\<lparr>mHistory := hist',
            mLastBoundInfo := \<lparr>pipelineLayout = pl, setMask = m, boundSets = mStashedSets st\<rparr>\<rparr>"
    and r: "recorded c' = recorded c @ map (\<lambda>i. bindCall pl i (the (mHistory st (mStashedSets st ! i))))
                         (filter ?P ?slots)"
    unfolding P by blast
  from r have i: "issued c c' =
      map (\<lambda>i. bindCall pl i (the (mHistory st (mStashedSets st ! i)))) (filter ?P ?slots)"
    by (simp add: issued_def)
  have f: "map firstSet (issued c c') = filter ?P ?slots"
    unfolding i by (simp add: bindCall_def comp_def)
  have "sorted_wrt (<) (filter ?P ?slots)"
    by (rule sorted_wrt_filter) simp
  with f r i s show ?thesis by simp
qed
lemma commit_exStaged:
  "commit exStaged exCommands 9 7 = Inr (exStaged1, exCommands2)"
  by (simp add: eval_defs)

lemma not_skips_exStaged: "\<not> commitSkips exStaged 9 7"
  by (simp add: commitSkips_def upt_3 iteratorAt_def bound_def BoundInfo_eq_def ex_defs)

theorem commit_binds_unbound_slots_witness:
  "\<not> commitSkips exStaged 9 7
   \<and> commit exStaged exCommands 9 7 = Inr (exStaged1, exCommands2)
   \<and> issued exCommands exCommands2 = [bindCall 9 0 exHistoryA, bindCall 9 2 exHistoryC]
   \<and> map firstSet (issued exCommands exCommands2) = [0, 2]
   \<and> mLastBoundInfo exStaged1 = \<lparr>pipelineLayout = 9, setMask = 7, boundSets = [11, 12, 13]\<rparr>"
  using commit_binds_unbound_slots [OF not_skips_exStaged commit_exStaged]
    not_skips_exStaged commit_exStaged
  by (simp add: upt_3 bound_def bindCall_def ex_defs)

section \<open>The Set Manager: mutations, bind and destroySet\<close>

lemma commit_rebinds:
  assumes i: "i < length (mStashedSets st)" and b: "bit m i"
    and h: "mHistory st (mStashedSets st ! i) = Some h" and u: "\<not> bound h"
    and ok: "commit st c pl m = Inr (st', c')"
  shows "bindCall pl i h \<in> set (issued c c')"
proof -
  from b h u have it: "iteratorAt st m i \<noteq> None"
    by (simp add: iteratorAt_None)
  with i have ns: "\<not> commitSkips st pl m"
    by (auto simp add: commitSkips_def list_all_iff)
  from commit_binds [OF ns ok] have
    "issued c c' = map (\<lambda>i. bindCall pl i (the (mHistory st (mStashedSets st ! i))))
                     (filter (\<lambda>i. iteratorAt st m i \<noteq> None) [0..<length (mStashedSets st)])"
    by (auto simp add: issued_def)
  moreover from i it have "i \<in> set (filter (\<lambda>i. iteratorAt st m i \<noteq> None) [0..<length (mStashedSets st)])"
    by simp
  ultimately have "bindCall pl i (the (mHistory st (mStashedSets st ! i))) \<in> set (issued c c')"
    by (metis (no_types, lifting) image_eqI set_map)
  with h show ?thesis by simp
qed

lemma updateBuffer_history:
  "mHistory (updateBuffer st vk binding) vk = Some (write_binding (subscript (mHistory st) vk) binding)
   \<and> mStashedSets (updateBuffer st vk binding) = mStashedSets st"
  by (simp add: updateBuffer_def)

lemma updateSampler_history:
  "mHistory (updateSampler st vk binding tex) vk =
     Some (write_texture (subscript (mHistory st) vk) binding (primaryViewRange tex) tex)
   \<and> mStashedSets (updateSampler st vk binding tex) = mStashedSets st"
  by (simp add: updateSampler_def)

lemma not_bound_mutators:
  "\<not> bound (write_binding h binding) \<and> \<not> bound (write_texture h binding rng tex)
   \<and> \<not> bound (setOffsets h offsets) \<and> \<not> bound (unbind h)"
  by (simp add: bound_def write_binding_def write_texture_def setOffsets_def unbind_def Let_def)

lemma Impl_bind_Inr:
  assumes "Impl_bind st idx vk offsets = Inr st'"
  shows "unat idx < length (mStashedSets st)
     \<and> mStashedSets st' = (mStashedSets st)[unat idx := vk]
     \<and> mHistory st' vk =
         Some (if mStashedSets st ! unat idx = vk \<and> vk \<noteq> VK_NULL_HANDLE
               then unbind (setOffsets (subscript (mHistory st) vk) offsets)
               else setOffsets (subscript (mHistory st) vk) offsets)
     \<and> (\<forall>k. k \<noteq> vk \<longrightarrow> mHistory st' k =
           (if k = mStashedSets st ! unat idx \<and> k \<noteq> VK_NULL_HANDLE
            then map_option unbind (mHistory st k) else mHistory st k))
     \<and> mDescriptorPool st' = mDescriptorPool st \<and> mLastBoundInfo st' = mLastBoundInfo st"
  using assms
  by (auto simp add: Impl_bind_def Let_def split: if_splits option.splits)

text \<open>
  C3. \<^verbatim>\<open>write\<close> (both overloads) and \<^verbatim>\<open>setOffsets\<close> leave a history not bound. So
  after \<^verbatim>\<open>updateBuffer\<close>, \<^verbatim>\<open>updateSampler\<close> or the manager's \<^verbatim>\<open>bind\<close> (the one caller
  of \<^verbatim>\<open>setOffsets\<close>) on a set, the history of that set is not bound, and every commit
  that returns and whose mask covers a slot where the set is staged records the bind of that
  history at that slot, whatever the last-committed state is.
\<close>

theorem mutation_forces_rebind:
  assumes mut: "st1 = updateBuffer st vk binding \<or> st1 = updateSampler st vk binding tex
                \<or> Impl_bind st idx vk offsets = Inr st1"
  shows "\<not> bound (write_binding h0 binding) \<and> \<not> bound (write_texture h0 binding rng tex)
     \<and> \<not> bound (setOffsets h0 offsets)
     \<and> (\<exists>h. mHistory st1 vk = Some h \<and> \<not> bound h \<and>
           (\<forall>i c pl m st2 c2.
               i < length (mStashedSets st1) \<and> bit m i \<and> mStashedSets st1 ! i = vk
               \<and> commit st1 c pl m = Inr (st2, c2)
               \<longrightarrow> bindCall pl i h \<in> set (issued c c2)))"
proof -
  from mut have "\<exists>h. mHistory st1 vk = Some h \<and> \<not> bound h"
  proof (elim disjE)
    assume "st1 = updateBuffer st vk binding"
    then show ?thesis using updateBuffer_history [of st vk binding] not_bound_mutators by simp
  next
    assume "st1 = updateSampler st vk binding tex"
    then show ?thesis using updateSampler_history [of st vk binding tex] not_bound_mutators by simp
  next
    assume "Impl_bind st idx vk offsets = Inr st1"
    from Impl_bind_Inr [OF this] show ?thesis using not_bound_mutators by simp
  qed
  then obtain h where h: "mHistory st1 vk = Some h" "\<not> bound h" by blast
  have "bindCall pl i h \<in> set (issued c c2)"
    if "i < length (mStashedSets st1) \<and> bit m i \<and> mStashedSets st1 ! i = vk
        \<and> commit st1 c pl m = Inr (st2, c2)" for i c pl m st2 c2
    using that h commit_rebinds [of i st1 m h c pl st2 c2] by auto
  with h not_bound_mutators show ?thesis by blast
qed
theorem mutation_forces_rebind_witness:
  "commit (updateBuffer exStaged1 11 0) exCommands2 9 7 =
     Inr ((updateBuffer exStaged1 11 0)\<lparr>mHistory := (mHistory exStaged1)
             (11 \<mapsto> boundHistory (write_binding (boundHistory exHistoryA) 0))\<rparr>,
          exCommands2\<lparr>recorded := recorded exCommands2 @
             [bindCall 9 0 (write_binding (boundHistory exHistoryA) 0)]\<rparr>)
   \<and> bindCall 9 0 (write_binding (boundHistory exHistoryA) 0) \<in>
       set (issued exCommands2 (exCommands2\<lparr>recorded := recorded exCommands2 @
             [bindCall 9 0 (write_binding (boundHistory exHistoryA) 0)]\<rparr>))
   \<and> commit (updateSampler exStaged1 13 1 exTexture) exCommands2 9 7 =
     Inr ((updateSampler exStaged1 13 1 exTexture)\<lparr>mHistory := (mHistory exStaged1)
             (13 \<mapsto> boundHistory (write_texture (boundHistory exHistoryC) 1 (primaryViewRange exTexture) exTexture))\<rparr>,
          exCommands2\<lparr>recorded := recorded exCommands2 @
             [bindCall 9 2 (write_texture (boundHistory exHistoryC) 1 (primaryViewRange exTexture) exTexture)]\<rparr>)
   \<and> bindCall 9 2 (write_texture (boundHistory exHistoryC) 1 (primaryViewRange exTexture) exTexture) \<in>
       set (issued exCommands2 (exCommands2\<lparr>recorded := recorded exCommands2 @
             [bindCall 9 2 (write_texture (boundHistory exHistoryC) 1 (primaryViewRange exTexture) exTexture)]\<rparr>))
   \<and> Impl_bind exStaged1 1 12 [4] =
       Inr (exStaged1\<lparr>mHistory := (mHistory exStaged1)(12 \<mapsto> unbind (setOffsets exHistoryB [4]))\<rparr>)
   \<and> commit (exStaged1\<lparr>mHistory := (mHistory exStaged1)(12 \<mapsto> unbind (setOffsets exHistoryB [4]))\<rparr>)
        exCommands2 9 7 =
     Inr (exStaged1\<lparr>mHistory := (mHistory exStaged1)
             (12 \<mapsto> boundHistory (unbind (setOffsets exHistoryB [4])))\<rparr>,
          exCommands2\<lparr>recorded := recorded exCommands2 @
             [bindCall 9 1 (unbind (setOffsets exHistoryB [4]))],
             acquired := [Some 12, Some 13, Some 11]\<rparr>)
   \<and> bindCall 9 1 (unbind (setOffsets exHistoryB [4])) \<in>
       set (issued exCommands2 (exCommands2\<lparr>recorded := recorded exCommands2 @
             [bindCall 9 1 (unbind (setOffsets exHistoryB [4]))],
             acquired := [Some 12, Some 13, Some 11]\<rparr>))"
proof -
  let ?hA = "write_binding (boundHistory exHistoryA) 0"
  let ?hC = "write_texture (boundHistory exHistoryC) 1 (primaryViewRange exTexture) exTexture"
  let ?hB = "unbind (setOffsets exHistoryB [4])"
  let ?sA = "updateBuffer exStaged1 11 0"
  let ?sC = "updateSampler exStaged1 13 1 exTexture"
  let ?sB = "exStaged1\<lparr>mHistory := (mHistory exStaged1)(12 \<mapsto> ?hB)\<rparr>"
  let ?cA = "exCommands2\<lparr>recorded := recorded exCommands2 @ [bindCall 9 0 ?hA]\<rparr>"
  let ?cC = "exCommands2\<lparr>recorded := recorded exCommands2 @ [bindCall 9 2 ?hC]\<rparr>"
  let ?cB = "exCommands2\<lparr>recorded := recorded exCommands2 @ [bindCall 9 1 ?hB],
                         acquired := [Some 12, Some 13, Some 11]\<rparr>"
  have a1: "commit ?sA exCommands2 9 7 =
      Inr (?sA\<lparr>mHistory := (mHistory exStaged1)(11 \<mapsto> boundHistory ?hA)\<rparr>, ?cA)"
    by (simp add: eval_defs)
  have a2: "mHistory ?sA 11 = Some ?hA \<and> length (mStashedSets ?sA) = 3 \<and> mStashedSets ?sA ! 0 = 11"
    by (simp add: eval_defs)
  have c1: "commit ?sC exCommands2 9 7 =
      Inr (?sC\<lparr>mHistory := (mHistory exStaged1)(13 \<mapsto> boundHistory ?hC)\<rparr>, ?cC)"
    by (simp add: eval_defs)
  have c2: "mHistory ?sC 13 = Some ?hC \<and> length (mStashedSets ?sC) = 3 \<and> mStashedSets ?sC ! 2 = 13"
    by (simp add: eval_defs)
  have b0: "Impl_bind exStaged1 1 12 [4] = Inr ?sB"
    by (simp add: eval_defs)
  have b1: "commit ?sB exCommands2 9 7 =
      Inr (exStaged1\<lparr>mHistory := (mHistory exStaged1)(12 \<mapsto> boundHistory ?hB)\<rparr>, ?cB)"
    by (simp add: eval_defs)
  have b2: "mHistory ?sB 12 = Some ?hB \<and> length (mStashedSets ?sB) = 3 \<and> mStashedSets ?sB ! 1 = 12"
    by (simp add: eval_defs)
  have bits: "bit (7 :: 8 word) 0 \<and> bit (7 :: 8 word) 1 \<and> bit (7 :: 8 word) 2"
    by simp
  have mutA: "?sA = updateBuffer exStaged1 11 0 \<or> ?sA = updateSampler exStaged1 11 0 exTexture
      \<or> Impl_bind exStaged1 0 11 [] = Inr ?sA" by simp
  from mutation_forces_rebind [OF mutA] obtain h where
    h: "mHistory ?sA 11 = Some h" and
    r: "\<And>i c pl m st2 c2. i < length (mStashedSets ?sA) \<and> bit m i \<and> mStashedSets ?sA ! i = 11
          \<and> commit ?sA c pl m = Inr (st2, c2) \<Longrightarrow> bindCall pl i h \<in> set (issued c c2)"
    by blast
  from h a2 have "h = ?hA" by simp
  with r [of 0 7 exCommands2 9] a1 a2 bits
  have A: "bindCall 9 0 ?hA \<in> set (issued exCommands2 ?cA)" by simp
  have mutC: "?sC = updateBuffer exStaged1 13 1 \<or> ?sC = updateSampler exStaged1 13 1 exTexture
      \<or> Impl_bind exStaged1 0 13 [] = Inr ?sC" by simp
  from mutation_forces_rebind [OF mutC] obtain h where
    h: "mHistory ?sC 13 = Some h" and
    r: "\<And>i c pl m st2 c2. i < length (mStashedSets ?sC) \<and> bit m i \<and> mStashedSets ?sC ! i = 13
          \<and> commit ?sC c pl m = Inr (st2, c2) \<Longrightarrow> bindCall pl i h \<in> set (issued c c2)"
    by blast
  from h c2 have "h = ?hC" by simp
  with r [of 2 7 exCommands2 9] c1 c2 bits
  have C: "bindCall 9 2 ?hC \<in> set (issued exCommands2 ?cC)" by simp
  have mutB: "?sB = updateBuffer exStaged1 12 0 \<or> ?sB = updateSampler exStaged1 12 0 exTexture
      \<or> Impl_bind exStaged1 1 12 [4] = Inr ?sB" using b0 by simp
  from mutation_forces_rebind [OF mutB] obtain h where
    h: "mHistory ?sB 12 = Some h" and
    r: "\<And>i c pl m st2 c2. i < length (mStashedSets ?sB) \<and> bit m i \<and> mStashedSets ?sB ! i = 12
          \<and> commit ?sB c pl m = Inr (st2, c2) \<Longrightarrow> bindCall pl i h \<in> set (issued c c2)"
    by blast
  from h b2 have "h = ?hB" by simp
  with r [of 1 7 exCommands2 9] b1 b2 bits
  have B: "bindCall 9 1 ?hB \<in> set (issued exCommands2 ?cB)" by simp
  from a1 A c1 C b0 b1 B show ?thesis by (simp only: simp_thms)
qed

text \<open>
  C7. The manager's \<^verbatim>\<open>bind\<close>, when it returns: the staged set has a history holding the
  new offsets and not bound; the slot holds the staged set and the other slots are as
  before; a previous occupant of the slot that is a different, non-null set has had
  \<^verbatim>\<open>unbind\<close> applied to its history; no history of any other set has changed, and when
  the slot was empty or held the staged set itself, no history but the staged set's has
  changed. The pools and the last-committed state are untouched, and \<^verbatim>\<open>bind\<close> has no
  command buffer to record into.
\<close>

theorem Impl_bind_stages:
  assumes ok: "Impl_bind st idx vk offsets = Inr st'"
  shows "(\<exists>h. mHistory st' vk = Some h \<and> mOffsets h = offsets \<and> \<not> bound h)
     \<and> unat idx < length (mStashedSets st)
     \<and> mStashedSets st' = (mStashedSets st)[unat idx := vk]
     \<and> (mStashedSets st ! unat idx \<noteq> vk \<and> mStashedSets st ! unat idx \<noteq> VK_NULL_HANDLE \<longrightarrow>
          (\<exists>hl. mHistory st (mStashedSets st ! unat idx) = Some hl \<and>
                mHistory st' (mStashedSets st ! unat idx) = Some (unbind hl) \<and>
                \<not> bound (unbind hl)))
     \<and> (\<forall>k. k \<noteq> vk \<and> k \<noteq> mStashedSets st ! unat idx \<longrightarrow> mHistory st' k = mHistory st k)
     \<and> (mStashedSets st ! unat idx = vk \<or> mStashedSets st ! unat idx = VK_NULL_HANDLE \<longrightarrow>
          (\<forall>k. k \<noteq> vk \<longrightarrow> mHistory st' k = mHistory st k))
     \<and> mDescriptorPool st' = mDescriptorPool st \<and> mLastBoundInfo st' = mLastBoundInfo st"
proof -
  note r = Impl_bind_Inr [OF ok]
  let ?last = "mStashedSets st ! unat idx"
  from r have own: "\<exists>h. mHistory st' vk = Some h \<and> mOffsets h = offsets \<and> \<not> bound h"
    by (simp add: bound_def unbind_def setOffsets_def)
  have prev: "\<exists>hl. mHistory st ?last = Some hl \<and> mHistory st' ?last = Some (unbind hl)
      \<and> \<not> bound (unbind hl)" if d: "?last \<noteq> vk" "?last \<noteq> VK_NULL_HANDLE"
  proof -
    from ok d obtain hl where "mHistory st ?last = Some hl"
      by (auto simp add: Impl_bind_def Let_def split: if_splits option.splits)
    moreover from r d have "mHistory st' ?last = map_option unbind (mHistory st ?last)" by simp
    ultimately show ?thesis by (simp add: not_bound_mutators)
  qed
  from r have others: "\<forall>k. k \<noteq> vk \<and> k \<noteq> ?last \<longrightarrow> mHistory st' k = mHistory st k"
    by simp
  from r have same: "?last = vk \<or> ?last = VK_NULL_HANDLE \<longrightarrow>
      (\<forall>k. k \<noteq> vk \<longrightarrow> mHistory st' k = mHistory st k)"
    by auto
  from own prev others same r show ?thesis by blast
qed

theorem Impl_bind_stages_witness:
  "Impl_bind exManager 0 13 [8] =
     Inr (exManager\<lparr>mHistory := (mHistory exManager)(13 \<mapsto> setOffsets exHistoryC [8],
                                                      11 \<mapsto> unbind exHistoryA),
                    mStashedSets := [13, 12, 0]\<rparr>)
   \<and> Impl_bind exManager 2 13 [8] =
     Inr (exManager\<lparr>mHistory := (mHistory exManager)(13 \<mapsto> setOffsets exHistoryC [8]),
                    mStashedSets := [11, 12, 13]\<rparr>)
   \<and> Impl_bind exManager 1 12 [4] =
     Inr (exManager\<lparr>mHistory := (mHistory exManager)(12 \<mapsto> unbind (setOffsets exHistoryB [4])),
                    mStashedSets := [11, 12, 0]\<rparr>)
   \<and> mOffsets (setOffsets exHistoryC [8]) = [8] \<and> \<not> bound (setOffsets exHistoryC [8])
   \<and> \<not> bound (unbind exHistoryA)
   \<and> mHistory (exManager\<lparr>mHistory := (mHistory exManager)(13 \<mapsto> setOffsets exHistoryC [8]),
                    mStashedSets := [11, 12, 13]\<rparr>) 11 = mHistory exManager 11"
proof -
  let ?s1 = "exManager\<lparr>mHistory := (mHistory exManager)(13 \<mapsto> setOffsets exHistoryC [8],
                                                      11 \<mapsto> unbind exHistoryA),
                    mStashedSets := [13, 12, 0]\<rparr>"
  let ?s2 = "exManager\<lparr>mHistory := (mHistory exManager)(13 \<mapsto> setOffsets exHistoryC [8]),
                    mStashedSets := [11, 12, 13]\<rparr>"
  let ?s3 = "exManager\<lparr>mHistory := (mHistory exManager)(12 \<mapsto> unbind (setOffsets exHistoryB [4])),
                    mStashedSets := [11, 12, 0]\<rparr>"
  have b1: "Impl_bind exManager 0 13 [8] = Inr ?s1"
    by (simp add: Impl_bind_def Let_def subscript_def exManager_def VK_NULL_HANDLE_def)
  have b2: "Impl_bind exManager 2 13 [8] = Inr ?s2"
    by (simp add: Impl_bind_def Let_def subscript_def exManager_def VK_NULL_HANDLE_def)
  have b3: "Impl_bind exManager 1 12 [4] = Inr ?s3"
    by (simp add: Impl_bind_def Let_def subscript_def exManager_def VK_NULL_HANDLE_def)
  have e: "mStashedSets exManager ! unat (2 :: 8 word) = VK_NULL_HANDLE"
    by (simp add: exManager_def VK_NULL_HANDLE_def)
  from Impl_bind_stages [OF b2] e have "mHistory ?s2 11 = mHistory exManager 11"
    by simp
  moreover from Impl_bind_stages [OF b1] have "\<not> bound (unbind exHistoryA)"
    by (simp add: exManager_def VK_NULL_HANDLE_def)
  moreover from Impl_bind_stages [OF b2] have
    "mOffsets (setOffsets exHistoryC [8]) = [8] \<and> \<not> bound (setOffsets exHistoryC [8])"
    by simp
  ultimately show ?thesis using b1 b2 b3 by (simp only: simp_thms)
qed

lemma bindLoop_wrappers:
  "bindLoop pl xs hist c = Inr (hist', c') \<Longrightarrow> (i, Some k) \<in> set xs \<Longrightarrow>
   \<exists>h. hist k = Some h \<and> mSet h \<noteq> None"
proof (induction pl xs hist c rule: bindLoop.induct)
  case (1 pl hist commands)
  then show ?case by simp
next
  case (2 pl j rest hist commands)
  then show ?case by simp
next
  case (3 pl j key rest hist commands)
  from "3.prems" obtain h where h: "hist key = Some h"
    by (auto split: option.splits)
  with "3.prems" obtain h1 c1 where b: "DescriptorSetHistory_bind h commands pl j = Inr (h1, c1)"
    and r: "bindLoop pl rest (hist(key \<mapsto> h1)) c1 = Inr (hist', c')"
    by (auto split: sum.splits)
  from history_bind_Inr [OF b] have h1: "h1 = boundHistory h" and w: "mSet h \<noteq> None"
    by simp_all
  show ?case
  proof (cases "(i, Some k) = (j, Some key)")
    case True
    with h w show ?thesis by simp
  next
    case False
    with "3.prems"(2) have "(i, Some k) \<in> set rest" by auto
    from "3.IH" [OF h b refl r this] obtain h2 where
      "(hist(key \<mapsto> h1)) k = Some h2" "mSet h2 \<noteq> None" by blast
    with h h1 w show ?thesis by (cases "k = key") (simp_all add: boundHistory_def)
  qed
qed

text \<open>Every call a returning commit records is the bind of a tracked history with a wrapper.\<close>

lemma commit_issued:
  assumes ok: "commit st c pl m = Inr (st', c')" and cmd: "cmd \<in> set (issued c c')"
  shows "\<exists>i h v. i < length (mStashedSets st) \<and> bit m i
      \<and> mHistory st (mStashedSets st ! i) = Some h \<and> mSet h = Some v
      \<and> cmd = bindCall pl i h \<and> pDescriptorSet cmd = v"
proof (cases "commitSkips st pl m")
  case True
  from commit_skip [OF True, of c] ok have "c' = c" by simp
  with cmd show ?thesis by (simp add: issued_def)
next
  case False
  let ?slots = "[0..<length (mStashedSets st)]"
  let ?its = "map (iteratorAt st m) ?slots"
  from False have ns': "\<not> (list_all (\<lambda>itr. itr = None) ?its \<and>
      BoundInfo_eq (mLastBoundInfo st) \<lparr>pipelineLayout = pl, setMask = m, boundSets = mStashedSets st\<rparr>)"
    by (simp add: commitSkips_def list_all_iff)
  from ok ns' obtain hist' where
    b: "bindLoop pl (zip ?slots ?its) (mHistory st) c = Inr (hist', c')"
    by (auto simp add: commit_def Let_def split: sum.splits if_splits)
  from commit_binds [OF False ok] have
    "issued c c' = map (\<lambda>i. bindCall pl i (the (mHistory st (mStashedSets st ! i))))
                     (filter (\<lambda>i. iteratorAt st m i \<noteq> None) ?slots)"
    by (auto simp add: issued_def)
  with cmd obtain i where i: "i < length (mStashedSets st)" "iteratorAt st m i \<noteq> None"
    and c: "cmd = bindCall pl i (the (mHistory st (mStashedSets st ! i)))"
    by auto
  from i obtain k where k: "iteratorAt st m i = Some k" by auto
  then have bit: "bit m i" and ki: "k = mStashedSets st ! i"
    by (simp_all add: iteratorAt_Some)
  from i k have "(i, Some k) \<in> set (zip ?slots ?its)"
    by (simp add: in_set_zip) (rule exI [of _ i], simp)
  from bindLoop_wrappers [OF b this] obtain h v where
    "mHistory st k = Some h" "mSet h = Some v" by auto
  with i bit ki c show ?thesis by (auto simp add: bindCall_def)
qed

text \<open>
  C8. \<^verbatim>\<open>destroySet\<close> erases the history of the set and nothing else from the map, puts
  the null handle in every slot that held the set and leaves the other slots, the pools and
  the last-committed state as they were. Afterwards no iterator of a commit can point to the
  set, whatever the mask; a commit that returns leaves the set without a history, and when
  the tracked histories have the wrappers of their own keys, none of the calls it records
  binds the destroyed set.
\<close>

theorem destroySet_frame:
  "mHistory (destroySet st vk) = (mHistory st)(vk := None)
   \<and> length (mStashedSets (destroySet st vk)) = length (mStashedSets st)
   \<and> (\<forall>i < length (mStashedSets st).
         mStashedSets (destroySet st vk) ! i =
           (if mStashedSets st ! i = vk then VK_NULL_HANDLE else mStashedSets st ! i))
   \<and> mDescriptorPool (destroySet st vk) = mDescriptorPool st
   \<and> mLastBoundInfo (destroySet st vk) = mLastBoundInfo st
   \<and> (\<forall>m i. iteratorAt (destroySet st vk) m i \<noteq> Some vk)
   \<and> (\<forall>c pl m st2 c2. commit (destroySet st vk) c pl m = Inr (st2, c2) \<longrightarrow>
         mHistory st2 vk = None
         \<and> (wrappersMatch st \<longrightarrow> (\<forall>cmd \<in> set (issued c c2). pDescriptorSet cmd \<noteq> vk)))"
proof -
  let ?d = "destroySet st vk"
  have gone: "mHistory ?d vk = None" by (simp add: destroySet_def)
  have it: "\<forall>m i. iteratorAt ?d m i \<noteq> Some vk"
    using gone by (simp add: iteratorAt_Some)
  have after: "mHistory st2 vk = None
      \<and> (wrappersMatch st \<longrightarrow> (\<forall>cmd \<in> set (issued c c2). pDescriptorSet cmd \<noteq> vk))"
    if ok: "commit ?d c pl m = Inr (st2, c2)" for c pl m st2 c2
  proof -
    have h2: "mHistory st2 vk = None"
    proof (cases "commitSkips ?d pl m")
      case True
      from commit_skip [OF True, of c] ok gone show ?thesis by simp
    next
      case False
      from commit_binds [OF False ok] gone show ?thesis by auto
    qed
    have "pDescriptorSet cmd \<noteq> vk" if w: "wrappersMatch st" and cmd: "cmd \<in> set (issued c c2)" for cmd
    proof -
      from commit_issued [OF ok cmd] obtain i h v where
        h: "mHistory ?d (mStashedSets ?d ! i) = Some h" and v: "mSet h = Some v"
        and p: "pDescriptorSet cmd = v" by blast
      from h gone have ne: "mStashedSets ?d ! i \<noteq> vk" by auto
      with h have "mHistory st (mStashedSets ?d ! i) = Some h" by (simp add: destroySet_def)
      with w v have "v = mStashedSets ?d ! i" by (auto simp add: wrappersMatch_def)
      with ne p show ?thesis by simp
    qed
    with h2 show ?thesis by blast
  qed
  have frame: "mHistory ?d = (mHistory st)(vk := None)
      \<and> length (mStashedSets ?d) = length (mStashedSets st)
      \<and> (\<forall>i < length (mStashedSets st).
           mStashedSets ?d ! i = (if mStashedSets st ! i = vk then VK_NULL_HANDLE else mStashedSets st ! i))
      \<and> mDescriptorPool ?d = mDescriptorPool st \<and> mLastBoundInfo ?d = mLastBoundInfo st"
    by (simp add: destroySet_def)
  from frame it after show ?thesis by blast
qed

lemma wrappersMatch_exStaged: "wrappersMatch exStaged"
  by (auto simp add: wrappersMatch_def ex_defs split: if_splits)

theorem destroySet_frame_witness:
  "wrappersMatch exStaged
   \<and> mStashedSets (destroySet exStaged 11) = [0, 12, 13]
   \<and> mHistory (destroySet exStaged 11) 11 = None
   \<and> mHistory (destroySet exStaged 11) 13 = Some exHistoryC
   \<and> mDescriptorPool (destroySet exStaged 11) = [exPoolRoom]
   \<and> commit (destroySet exStaged 11) exCommands 9 7 =
       Inr ((destroySet exStaged 11)\<lparr>mHistory := (mHistory (destroySet exStaged 11))
               (13 \<mapsto> boundHistory exHistoryC),
             mLastBoundInfo := \<lparr>pipelineLayout = 9, setMask = 7, boundSets = [0, 12, 13]\<rparr>\<rparr>,
            \<lparr>recorded = [bindCall 9 2 exHistoryC], acquired = [Some 13]\<rparr>)
   \<and> issued exCommands \<lparr>recorded = [bindCall 9 2 exHistoryC], acquired = [Some 13]\<rparr> =
       [bindCall 9 2 exHistoryC]
   \<and> pDescriptorSet (bindCall 9 2 exHistoryC) \<noteq> 11"
proof -
  let ?d = "destroySet exStaged 11"
  let ?c2 = "\<lparr>recorded = [bindCall 9 2 exHistoryC], acquired = [Some 13]\<rparr>"
  have ok: "commit ?d exCommands 9 7 =
       Inr (?d\<lparr>mHistory := (mHistory ?d)(13 \<mapsto> boundHistory exHistoryC),
             mLastBoundInfo := \<lparr>pipelineLayout = 9, setMask = 7, boundSets = [0, 12, 13]\<rparr>\<rparr>, ?c2)"
    by (simp add: destroySet_def eval_defs)
  have iss: "issued exCommands ?c2 = [bindCall 9 2 exHistoryC]"
    by (simp add: issued_def exCommands_def)
  note f = destroySet_frame [of exStaged 11]
  from f have 1: "mHistory ?d 11 = None" by simp
  from f have 2: "mHistory ?d 13 = Some exHistoryC" by (simp add: ex_defs)
  from f have 3: "mDescriptorPool ?d = [exPoolRoom]" by (simp add: ex_defs)
  have 4: "mStashedSets ?d = [0, 12, 13]" by (simp add: destroySet_def ex_defs)
  from f ok wrappersMatch_exStaged have "\<forall>cmd \<in> set (issued exCommands ?c2). pDescriptorSet cmd \<noteq> 11"
    by blast
  with iss have 5: "pDescriptorSet (bindCall 9 2 exHistoryC) \<noteq> 11" by simp
  from wrappersMatch_exStaged 1 2 3 4 ok iss 5 show ?thesis by (simp only: simp_thms)
qed

text \<open>
  C9, as the code has it. For a handle without a tracked history, \<^verbatim>\<open>mHistory[handle]\<close>
  default-constructs one and the call goes on with it: \<^verbatim>\<open>updateBuffer\<close> and
  \<^verbatim>\<open>updateSampler\<close> mark the binding written in the new history, and \<^verbatim>\<open>bind\<close> stores
  the offsets in it and stages the handle. The assertion of \<^verbatim>\<open>bind\<close> is about the
  previous occupant of the slot: it fails exactly when the slot holds a non-null handle,
  other than the staged one, that has no history.
\<close>

theorem untracked_handle_default_history:
  assumes un: "mHistory st vk = None"
  shows "updateBuffer st vk binding =
       st\<lparr>mHistory := (mHistory st)(vk \<mapsto> write_binding DescriptorSetHistory_default binding)\<rparr>
     \<and> updateSampler st vk binding tex =
       st\<lparr>mHistory := (mHistory st)(vk \<mapsto>
            write_texture DescriptorSetHistory_default binding (primaryViewRange tex) tex)\<rparr>
     \<and> (Impl_bind st idx vk offsets = Inl AssertInvariantFailed \<longleftrightarrow>
          unat idx < length (mStashedSets st)
          \<and> mStashedSets st ! unat idx \<noteq> VK_NULL_HANDLE
          \<and> mStashedSets st ! unat idx \<noteq> vk
          \<and> mHistory st (mStashedSets st ! unat idx) = None)
     \<and> (unat idx < length (mStashedSets st)
          \<and> (mStashedSets st ! unat idx = VK_NULL_HANDLE
              \<or> mHistory st (mStashedSets st ! unat idx) \<noteq> None) \<longrightarrow>
          (\<exists>st'. Impl_bind st idx vk offsets = Inr st'
                \<and> mHistory st' vk = Some (setOffsets DescriptorSetHistory_default offsets)
                \<and> mStashedSets st' = (mStashedSets st)[unat idx := vk]))"
  using un
  by (auto simp add: updateBuffer_def updateSampler_def Impl_bind_def subscript_def Let_def
      split: option.splits)

theorem untracked_handle_default_history_witness:
  "mHistory exManager 99 = None
   \<and> updateBuffer exManager 99 0 =
       exManager\<lparr>mHistory := (mHistory exManager)(99 \<mapsto> write_binding DescriptorSetHistory_default 0)\<rparr>
   \<and> Impl_bind exManager 0 99 [8] \<noteq> Inl AssertInvariantFailed
   \<and> Impl_bind (destroySet exManager 12) 1 99 [8] \<noteq> Inl AssertInvariantFailed
   \<and> Impl_bind (exManager\<lparr>mHistory := (mHistory exManager)(12 := None)\<rparr>) 1 99 [8] =
       Inl AssertInvariantFailed"
proof -
  have un: "mHistory exManager 99 = None" by (simp add: exManager_def)
  have un2: "mHistory (destroySet exManager 12) 99 = None" by (simp add: exManager_def destroySet_def)
  have un3: "mHistory (exManager\<lparr>mHistory := (mHistory exManager)(12 := None)\<rparr>) 99 = None"
    by (simp add: exManager_def)
  from untracked_handle_default_history [OF un, of 0 exTexture 0 "[8]"]
  have 1: "updateBuffer exManager 99 0 =
       exManager\<lparr>mHistory := (mHistory exManager)(99 \<mapsto> write_binding DescriptorSetHistory_default 0)\<rparr>"
    and 2: "Impl_bind exManager 0 99 [8] \<noteq> Inl AssertInvariantFailed"
    by (simp_all add: exManager_def VK_NULL_HANDLE_def)
  from untracked_handle_default_history [OF un2, of 0 exTexture 1 "[8]"]
  have 3: "Impl_bind (destroySet exManager 12) 1 99 [8] \<noteq> Inl AssertInvariantFailed"
    by (simp add: exManager_def destroySet_def VK_NULL_HANDLE_def)
  from untracked_handle_default_history [OF un3, of 0 exTexture 1 "[8]"]
  have 4: "Impl_bind (exManager\<lparr>mHistory := (mHistory exManager)(12 := None)\<rparr>) 1 99 [8] =
       Inl AssertInvariantFailed"
    by (simp add: exManager_def VK_NULL_HANDLE_def)
  from un 1 2 3 4 show ?thesis by (simp only: simp_thms)
qed

text \<open>
  C9, as the claim has it, fails: staging the untracked handle 99 in the empty slot 2 of
  the example manager returns with a default-constructed history for 99 holding the offsets,
  and updating a buffer or a sampler of 99 returns with a default-constructed history in
  which the binding is written. No assertion fails.
\<close>

theorem untracked_handle_counterexample:
  "mHistory exManager 99 = None
   \<and> Impl_bind exManager 2 99 [8] =
       Inr (exManager\<lparr>mHistory := (mHistory exManager)
                         (99 \<mapsto> setOffsets DescriptorSetHistory_default [8]),
                      mStashedSets := [11, 12, 99]\<rparr>)
   \<and> updateBuffer exManager 99 0 =
       exManager\<lparr>mHistory := (mHistory exManager)
                     (99 \<mapsto> write_binding DescriptorSetHistory_default 0)\<rparr>
   \<and> updateSampler exManager 99 0 exTexture =
       exManager\<lparr>mHistory := (mHistory exManager)
                     (99 \<mapsto> write_texture DescriptorSetHistory_default 0
                                 (primaryViewRange exTexture) exTexture)\<rparr>"
  by (simp add: Impl_bind_def updateBuffer_def updateSampler_def subscript_def Let_def
      exManager_def VK_NULL_HANDLE_def)

end
